theory Spec2Isabelle
  imports Main "HOL-Library.Word"
begin

unbundle bit_operations_syntax

text \<open>
  A shallow embedding of the scalar \<open>fileio\<close> functions of \<open>src/fileio/scalar.c\<close>
  (\<open>lsmode\<close>, \<open>mkdir\<close>, \<open>readfile\<close>, \<open>symlink\<close>, \<open>writefile\<close>), in the build for POSIX
  systems (the \<open>#else\<close> branches of the \<open>_WIN32\<close> conditionals). The C functions are state
  transformers over two explicit states: the SQLite function context (the result slot of the call)
  and the world (a file-system namespace, \<open>errno\<close>, and a log of the library calls made).
\<close>

section \<open>File modes and the permission formatter\<close>

text \<open>
  Modelled from the spec: the macros \<open>S_IFMT\<close>, \<open>S_ISLNK\<close>, \<open>S_ISREG\<close> and \<open>S_ISDIR\<close> come from
  the system header \<open>sys/stat.h\<close>, which is not part of the repository. The spec describes a file
  mode as an integer bitmask encoding the entity kind and three permission triads; the values below
  are the POSIX ones (octal 0170000, 0120000, 0100000, 0040000).
\<close>

definition S_IFMT :: "32 word" where "S_IFMT = 0xF000"
definition S_IFLNK :: "32 word" where "S_IFLNK = 0xA000"
definition S_IFREG :: "32 word" where "S_IFREG = 0x8000"
definition S_IFDIR :: "32 word" where "S_IFDIR = 0x4000"

definition S_ISLNK :: "32 word \<Rightarrow> bool" where "S_ISLNK m = (m AND S_IFMT = S_IFLNK)"
definition S_ISREG :: "32 word \<Rightarrow> bool" where "S_ISREG m = (m AND S_IFMT = S_IFREG)"
definition S_ISDIR :: "32 word \<Rightarrow> bool" where "S_ISDIR m = (m AND S_IFMT = S_IFDIR)"

text \<open>
  The body of the loop of \<open>sqlite3_lsmode\<close> for one value of \<open>i\<close>: \<open>m = iMode >> ((2 - i) * 3)\<close>
  on a signed 32-bit \<open>int\<close>, then three stores into \<open>z\<close> at \<open>1 + i * 3\<close>.
\<close>

definition lsmode_step :: "32 word \<Rightarrow> nat \<Rightarrow> string \<Rightarrow> string" where
  "lsmode_step iMode i z =
     (let m = signed_drop_bit ((2 - i) * 3) iMode;
          a = 1 + i * 3
      in z[a := (if m AND 0x4 \<noteq> 0 then CHR ''r'' else CHR ''-''),
           a + 1 := (if m AND 0x2 \<noteq> 0 then CHR ''w'' else CHR ''-''),
           a + 2 := (if m AND 0x1 \<noteq> 0 then CHR ''x'' else CHR ''-'')])"

text \<open>
  The buffer \<open>char z[16]\<close> of \<open>sqlite3_lsmode\<close>, filled as the code fills it; the text handed to
  \<open>sqlite3_result_text(context, z, -1, ...)\<close> is the C string in \<open>z\<close>, that is the characters
  before the first NUL. The buffer starts uninitialised in C; here it starts as \<open>z0\<close>.
\<close>

definition lsmode_buf :: "string \<Rightarrow> 32 word \<Rightarrow> string" where
  "lsmode_buf z0 iMode =
     (let z = z0[0 := (if S_ISLNK iMode then CHR ''l''
                       else if S_ISREG iMode then CHR ''-''
                       else if S_ISDIR iMode then CHR ''d''
                       else CHR ''?'')];
          z = fold (lsmode_step iMode) [0, 1, 2] z;
          z = z[10 := CHR 0x00]
      in takeWhile (\<lambda>c. c \<noteq> CHR 0x00) z)"

definition lsmode :: "32 word \<Rightarrow> string" where
  "lsmode iMode = lsmode_buf (replicate 16 (CHR 0x00)) iMode"

section \<open>SQL values and the function context\<close>

text \<open>
  The values SQLite hands to a function and the accessors of its C API. The API is not part of the
  repository; its documented behaviour is written out for the storage classes NULL, INTEGER, TEXT
  and BLOB (REAL is left out). An INTEGER carries a 64-bit signed value, kept here as an \<open>int\<close>.
\<close>

datatype sqlite3_value =
    SQL_NULL
  | SQL_INTEGER int
  | SQL_TEXT string
  | SQL_BLOB "8 word list"

function dec_nat :: "nat \<Rightarrow> string" where
  "dec_nat n = (if n < 10 then [char_of (48 + n)]
                else dec_nat (n div 10) @ [char_of (48 + n mod 10)])"
  by pat_completeness auto
termination
  by (relation "measure id") auto

definition dec_int :: "int \<Rightarrow> string" where
  "dec_int i = (if i < 0 then CHR ''-'' # dec_nat (nat (- i)) else dec_nat (nat i))"

definition is_space :: "char \<Rightarrow> bool" where
  "is_space c = (c \<in> set [CHR 0x20, CHR 0x09, CHR 0x0A, CHR 0x0B, CHR 0x0C, CHR 0x0D])"

definition is_digit :: "char \<Rightarrow> bool" where
  "is_digit c = (48 \<le> (of_char c :: nat) \<and> (of_char c :: nat) \<le> 57)"

text \<open>
  Text to integer, as the engine converts a string that starts with an integer: leading white
  space, an optional sign, the longest run of digits, saturating at the 64-bit bounds.
\<close>

definition atoi64 :: "string \<Rightarrow> int" where
  "atoi64 s =
     (let s1 = dropWhile is_space s;
          neg = (s1 \<noteq> [] \<and> hd s1 = CHR ''-'');
          s2 = (if s1 \<noteq> [] \<and> (hd s1 = CHR ''-'' \<or> hd s1 = CHR ''+'') then tl s1 else s1);
          v = foldl (\<lambda>a c. 10 * a + (int (of_char c) - 48)) 0 (takeWhile is_digit s2);
          v = (if neg then - v else v)
      in max (- (2 ^ 63)) (min (2 ^ 63 - 1) v))"

text \<open>A C string ends at its first NUL byte.\<close>

definition c_str :: "string \<Rightarrow> string" where
  "c_str s = takeWhile (\<lambda>c. c \<noteq> CHR 0x00) s"

definition bytes_of :: "string \<Rightarrow> 8 word list" where
  "bytes_of s = map (\<lambda>c. of_char c) s"

definition chars_of :: "8 word list \<Rightarrow> string" where
  "chars_of b = map (\<lambda>x. char_of (unat x)) b"

fun sqlite3_value_text :: "sqlite3_value \<Rightarrow> string option" where
  "sqlite3_value_text SQL_NULL = None"
| "sqlite3_value_text (SQL_INTEGER i) = Some (dec_int i)"
| "sqlite3_value_text (SQL_TEXT s) = Some (c_str s)"
| "sqlite3_value_text (SQL_BLOB b) = Some (c_str (chars_of b))"

fun sqlite3_value_blob :: "sqlite3_value \<Rightarrow> 8 word list option" where
  "sqlite3_value_blob SQL_NULL = None"
| "sqlite3_value_blob (SQL_INTEGER i) = Some (bytes_of (dec_int i))"
| "sqlite3_value_blob (SQL_TEXT s) = (if s = [] then None else Some (bytes_of s))"
| "sqlite3_value_blob (SQL_BLOB b) = (if b = [] then None else Some b)"

fun sqlite3_value_bytes :: "sqlite3_value \<Rightarrow> nat" where
  "sqlite3_value_bytes SQL_NULL = 0"
| "sqlite3_value_bytes (SQL_INTEGER i) = length (dec_int i)"
| "sqlite3_value_bytes (SQL_TEXT s) = length s"
| "sqlite3_value_bytes (SQL_BLOB b) = length b"

fun sqlite3_value_int64 :: "sqlite3_value \<Rightarrow> int" where
  "sqlite3_value_int64 SQL_NULL = 0"
| "sqlite3_value_int64 (SQL_INTEGER i) = i"
| "sqlite3_value_int64 (SQL_TEXT s) = atoi64 s"
| "sqlite3_value_int64 (SQL_BLOB b) = atoi64 (chars_of b)"

text \<open>\<open>sqlite3_value_int\<close> is the 64-bit value truncated to a 32-bit \<open>int\<close>.\<close>

definition sqlite3_value_int :: "sqlite3_value \<Rightarrow> 32 word" where
  "sqlite3_value_int v = word_of_int (sqlite3_value_int64 v)"

text \<open>
  Modelled from the spec: the result codes are constants of \<open>sqlite3.h\<close>, which is not part of the
  repository; the spec names them Generic, OutOfMemory, IOError and TooBig.
\<close>

definition SQLITE_OK :: int where "SQLITE_OK = 0"
definition SQLITE_ERROR :: int where "SQLITE_ERROR = 1"
definition SQLITE_NOMEM :: int where "SQLITE_NOMEM = 7"
definition SQLITE_IOERR :: int where "SQLITE_IOERR = 10"
definition SQLITE_TOOBIG :: int where "SQLITE_TOOBIG = 18"

text \<open>
  What a call leaves in its context: SQLite starts every call with the result NULL, and each
  \<open>sqlite3_result_*\<close> function overwrites the slot. An error message is absent when its
  allocation failed.
\<close>

datatype sql_result =
    R_NULL
  | R_INT64 int
  | R_TEXT string
  | R_BLOB "8 word list"
  | R_ERROR "string option"
  | R_ERROR_CODE int
  | R_ERROR_NOMEM

record sqlite3_context =
  limit_length :: int
  result :: sql_result

fun is_error :: "sql_result \<Rightarrow> bool" where
  "is_error (R_ERROR m) = True"
| "is_error (R_ERROR_CODE c) = True"
| "is_error R_ERROR_NOMEM = True"
| "is_error r = False"

definition sqlite3_result_int64 :: "sqlite3_context \<Rightarrow> int \<Rightarrow> sqlite3_context" where
  "sqlite3_result_int64 ctx n = ctx\<lparr>result := R_INT64 n\<rparr>"

definition sqlite3_result_text :: "sqlite3_context \<Rightarrow> string \<Rightarrow> sqlite3_context" where
  "sqlite3_result_text ctx z = ctx\<lparr>result := R_TEXT z\<rparr>"

definition sqlite3_result_blob64 :: "sqlite3_context \<Rightarrow> 8 word list \<Rightarrow> nat \<Rightarrow> sqlite3_context" where
  "sqlite3_result_blob64 ctx pBuf n = ctx\<lparr>result := R_BLOB (take n pBuf)\<rparr>"

definition sqlite3_result_error :: "sqlite3_context \<Rightarrow> string option \<Rightarrow> sqlite3_context" where
  "sqlite3_result_error ctx zMsg = ctx\<lparr>result := R_ERROR zMsg\<rparr>"

definition sqlite3_result_error_code :: "sqlite3_context \<Rightarrow> int \<Rightarrow> sqlite3_context" where
  "sqlite3_result_error_code ctx c = ctx\<lparr>result := R_ERROR_CODE c\<rparr>"

definition sqlite3_result_error_nomem :: "sqlite3_context \<Rightarrow> sqlite3_context" where
  "sqlite3_result_error_nomem ctx = ctx\<lparr>result := R_ERROR_NOMEM\<rparr>"

text \<open>\<open>sqlite3_limit(sqlite3_context_db_handle(ctx), SQLITE_LIMIT_LENGTH, -1)\<close>.\<close>

definition sqlite3_limit_length :: "sqlite3_context \<Rightarrow> int" where
  "sqlite3_limit_length ctx = limit_length ctx"

section \<open>The world: a file-system namespace and the C library\<close>

text \<open>
  The C library and the operating system are not part of the repository. The functions of this
  section write out the POSIX behaviour the code relies on, for one process running alone (nothing
  else changes the file system between two calls).

  The namespace maps a canonical path (the list of names from the root) to an inode. Which names
  exist decides \<open>ENOENT\<close>, \<open>EEXIST\<close>, \<open>ENOTDIR\<close>, \<open>EISDIR\<close> and \<open>ELOOP\<close>. Failures that a
  namespace cannot explain (permissions, a full or read-only disk, I/O errors, exhausted memory)
  are inputs of the model: \<open>fault\<close> says which call on which path is refused and how,
  \<open>fwrite_limit\<close> and \<open>fread_limit\<close> how many bytes a stream accepts or delivers, and
  \<open>malloc_fails\<close> which allocation sizes are refused. Bytes accepted by \<open>fwrite\<close> are taken to
  reach the file (stdio buffering is not modelled).
\<close>

datatype errno_t =
  ENOENT | EEXIST | ENOTDIR | EISDIR | ELOOP | EINVAL | EFAULT | EACCES | EPERM | EIO | ENOSPC | EROFS

datatype fault = F_EACCES | F_EPERM | F_EIO | F_ENOSPC | F_EROFS

fun errno_of_fault :: "fault \<Rightarrow> errno_t" where
  "errno_of_fault F_EACCES = EACCES"
| "errno_of_fault F_EPERM = EPERM"
| "errno_of_fault F_EIO = EIO"
| "errno_of_fault F_ENOSPC = ENOSPC"
| "errno_of_fault F_EROFS = EROFS"

datatype syscall =
  SYS_fopen_rb | SYS_fopen_wb | SYS_stat | SYS_mkdir | SYS_chmod | SYS_symlink | SYS_utimes

text \<open>
  An inode is a regular file (permission bits, content, modification time), a directory
  (permission bits) or a symbolic link (its target).
\<close>

datatype inode =
    Reg "32 word" "8 word list" int
  | Dir "32 word"
  | Lnk string

text \<open>The log of library calls: each call appends one event, with its arguments and outcome.\<close>

datatype event =
    EvFopen string string bool
  | EvFclose "string list"
  | EvFtell "string list" int
  | EvFread "string list" nat nat
  | EvFwrite "string list" nat nat
  | EvStat string "32 word option"
  | EvMkdir string "32 word" int
  | EvChmod string "32 word" int
  | EvSymlink string "string option" int
  | EvUtimes string int int
  | EvMalloc nat bool
  | EvMprintf string bool
  | EvVmprintf string bool
  | EvFree

record world =
  fs :: "string list \<Rightarrow> inode option"
  cwd :: "string list"
  umask :: "32 word"
  clock :: int
  dir_seek_end :: int
  fault :: "syscall \<Rightarrow> string \<Rightarrow> fault option"
  fwrite_limit :: "string list \<Rightarrow> nat option"
  fread_limit :: "string list \<Rightarrow> nat option"
  malloc_fails :: "nat \<Rightarrow> bool"
  errno :: errno_t
  trace :: "event list"

definition set_errno :: "errno_t \<Rightarrow> world \<Rightarrow> world" where
  "set_errno e w = w\<lparr>errno := e\<rparr>"

definition log_event :: "event \<Rightarrow> world \<Rightarrow> world" where
  "log_event ev w = w\<lparr>trace := trace w @ [ev]\<rparr>"

subsection \<open>Path resolution\<close>

fun split_path :: "string \<Rightarrow> string list" where
  "split_path [] = [[]]"
| "split_path (c # cs) =
     (if c = CHR ''/'' then [] # split_path cs
      else (case split_path cs of
              [] \<Rightarrow> [[c]]
            | x # xs \<Rightarrow> (c # x) # xs))"

text \<open>
  The walk from directory \<open>cur\<close> along the remaining components. Every step needs \<open>cur\<close> to be an
  existing directory; an empty component (a doubled or trailing slash) and \<open>.\<close> stay, \<open>..\<close> goes
  up, a symbolic link is replaced by its target (at most \<open>fuel\<close> times: \<open>ELOOP\<close> after that). The
  last component is followed only when \<open>follow\<close> is set; it need not exist.
\<close>

fun walk :: "nat \<Rightarrow> (string list \<Rightarrow> inode option) \<Rightarrow> bool \<Rightarrow> string list \<Rightarrow> string list
               \<Rightarrow> errno_t + string list" where
  "walk fuel f follow cur [] = Inr cur"
| "walk fuel f follow cur (c # cs) =
     (case f cur of
        None \<Rightarrow> Inl ENOENT
      | Some (Reg p d t) \<Rightarrow> Inl ENOTDIR
      | Some (Lnk t) \<Rightarrow> Inl ENOTDIR
      | Some (Dir p) \<Rightarrow>
          if c = [] \<or> c = ''.'' then walk fuel f follow cur cs
          else if c = ''..'' then walk fuel f follow (butlast cur) cs
          else (case f (cur @ [c]) of
                  Some (Lnk t) \<Rightarrow>
                    if cs = [] \<and> \<not> follow then Inr (cur @ [c])
                    else (case fuel of
                            0 \<Rightarrow> Inl ELOOP
                          | Suc k \<Rightarrow>
                              if t = [] then Inl ENOENT
                              else walk k f follow (if hd t = CHR ''/'' then [] else cur)
                                     (split_path t @ cs))
                | _ \<Rightarrow> walk fuel f follow (cur @ [c]) cs))"

definition resolve :: "bool \<Rightarrow> string \<Rightarrow> world \<Rightarrow> errno_t + string list" where
  "resolve follow path w =
     (if path = [] then Inl ENOENT
      else walk 40 (fs w) follow (if hd path = CHR ''/'' then [] else cwd w) (split_path path))"

text \<open>The object a path names, for the calls that need it to exist.\<close>

definition lookup :: "string \<Rightarrow> world \<Rightarrow> errno_t + (string list \<times> inode)" where
  "lookup path w =
     (case resolve True path w of
        Inl e \<Rightarrow> Inl e
      | Inr r \<Rightarrow> (case fs w r of
                    None \<Rightarrow> Inl ENOENT
                  | Some (Lnk t) \<Rightarrow> Inl ELOOP
                  | Some n \<Rightarrow> Inr (r, n)))"

text \<open>A new entry needs its parent to be an existing directory.\<close>

definition has_parent_dir :: "world \<Rightarrow> string list \<Rightarrow> bool" where
  "has_parent_dir w r =
     (r \<noteq> [] \<and> (case fs w (butlast r) of Some (Dir p) \<Rightarrow> True | _ \<Rightarrow> False))"

definition strip_slashes :: "string \<Rightarrow> string" where
  "strip_slashes path =
     (let q = rev (dropWhile (\<lambda>c. c = CHR ''/'') (rev path))
      in if path \<noteq> [] \<and> q = [] then ''/'' else q)"

definition st_mode_of :: "inode \<Rightarrow> 32 word" where
  "st_mode_of n =
     (case n of
        Reg p d t \<Rightarrow> S_IFREG OR (p AND 0xFFF)
      | Dir p \<Rightarrow> S_IFDIR OR (p AND 0xFFF)
      | Lnk t \<Rightarrow> S_IFLNK OR 0x1FF)"

subsection \<open>The library calls\<close>

text \<open>
  Each call returns its C return value and the new world. A failing call sets \<open>errno\<close> and
  changes nothing else; a successful call leaves \<open>errno\<close> alone.
\<close>

text \<open>\<open>stat(path, &buf)\<close>: \<open>None\<close> for the return value -1, else the \<open>st_mode\<close> of the buffer.\<close>

definition c_stat :: "string \<Rightarrow> world \<Rightarrow> 32 word option \<times> world" where
  "c_stat path w =
     (case (case fault w SYS_stat path of
              Some x \<Rightarrow> Inl (errno_of_fault x)
            | None \<Rightarrow> lookup path w) of
        Inl e \<Rightarrow> (None, log_event (EvStat path None) (set_errno e w))
      | Inr (r, n) \<Rightarrow> (Some (st_mode_of n), log_event (EvStat path (Some (st_mode_of n))) w))"

text \<open>\<open>mkdir(path, mode)\<close>; trailing slashes are ignored, a last-component link is not followed.\<close>

definition c_mkdir :: "string \<Rightarrow> 32 word \<Rightarrow> world \<Rightarrow> int \<times> world" where
  "c_mkdir path mode w =
     (case (case fault w SYS_mkdir path of
              Some x \<Rightarrow> Inl (errno_of_fault x)
            | None \<Rightarrow>
                (case resolve False (strip_slashes path) w of
                   Inl e \<Rightarrow> Inl e
                 | Inr r \<Rightarrow>
                     (case fs w r of
                        Some n \<Rightarrow> Inl EEXIST
                      | None \<Rightarrow> if has_parent_dir w r then Inr r else Inl ENOENT))) of
        Inl e \<Rightarrow> (- 1, log_event (EvMkdir path mode (- 1)) (set_errno e w))
      | Inr r \<Rightarrow>
          (0, log_event (EvMkdir path mode 0)
                (w\<lparr>fs := (fs w)(r \<mapsto> Dir (mode AND NOT (umask w) AND 0x1FF))\<rparr>)))"

text \<open>\<open>chmod(path, mode)\<close>: replaces the permission bits of an existing file or directory.\<close>

definition c_chmod :: "string \<Rightarrow> 32 word \<Rightarrow> world \<Rightarrow> int \<times> world" where
  "c_chmod path mode w =
     (case (case fault w SYS_chmod path of
              Some x \<Rightarrow> Inl (errno_of_fault x)
            | None \<Rightarrow> lookup path w) of
        Inl e \<Rightarrow> (- 1, log_event (EvChmod path mode (- 1)) (set_errno e w))
      | Inr (r, n) \<Rightarrow>
          (0, log_event (EvChmod path mode 0)
                (w\<lparr>fs := (fs w)(r \<mapsto> (case n of
                                            Reg p d t \<Rightarrow> Reg (mode AND 0xFFF) d t
                                          | Dir p \<Rightarrow> Dir (mode AND 0xFFF)
                                          | Lnk t \<Rightarrow> Lnk t))\<rparr>)))"

text \<open>
  \<open>symlink(target, linkpath)\<close>: a new link at \<open>linkpath\<close>, which must not exist. \<open>None\<close> is a
  NULL \<open>linkpath\<close>.
\<close>

definition c_symlink :: "string \<Rightarrow> string option \<Rightarrow> world \<Rightarrow> int \<times> world" where
  "c_symlink target linkpath w =
     (case (case linkpath of
              None \<Rightarrow> Inl EFAULT
            | Some lp \<Rightarrow>
                (case fault w SYS_symlink lp of
                   Some x \<Rightarrow> Inl (errno_of_fault x)
                 | None \<Rightarrow>
                     if target = [] then Inl ENOENT
                     else (case resolve False lp w of
                             Inl e \<Rightarrow> Inl e
                           | Inr r \<Rightarrow>
                               (case fs w r of
                                  Some n \<Rightarrow> Inl EEXIST
                                | None \<Rightarrow> if has_parent_dir w r then Inr r else Inl ENOENT)))) of
        Inl e \<Rightarrow> (- 1, log_event (EvSymlink target linkpath (- 1)) (set_errno e w))
      | Inr r \<Rightarrow>
          (0, log_event (EvSymlink target linkpath 0) (w\<lparr>fs := (fs w)(r \<mapsto> Lnk target)\<rparr>)))"

text \<open>\<open>utimes(path, times)\<close> with \<open>times[1].tv_sec = mtime\<close>; access times are not kept.\<close>

definition c_utimes :: "string \<Rightarrow> int \<Rightarrow> int \<Rightarrow> world \<Rightarrow> int \<times> world" where
  "c_utimes path atime mtime w =
     (case (case fault w SYS_utimes path of
              Some x \<Rightarrow> Inl (errno_of_fault x)
            | None \<Rightarrow> lookup path w) of
        Inl e \<Rightarrow> (- 1, log_event (EvUtimes path mtime (- 1)) (set_errno e w))
      | Inr (r, n) \<Rightarrow>
          (0, log_event (EvUtimes path mtime 0)
                (w\<lparr>fs := (fs w)(r \<mapsto> (case n of
                                            Reg p d t \<Rightarrow> Reg p d mtime
                                          | Dir p \<Rightarrow> Dir p
                                          | Lnk t \<Rightarrow> Lnk t))\<rparr>)))"

text \<open>
  \<open>fopen(path, mode)\<close> for the two modes the code uses. The stream is named by the canonical path
  of the open file; \<open>None\<close> is the NULL pointer. \<open>"rb"\<close> opens what exists (a directory too, as
  \<open>open\<close> with \<open>O_RDONLY\<close> does). \<open>"wb"\<close> creates the file with mode 0666 less the umask, or
  truncates it; it refuses a directory and a path that ends in a slash.
\<close>

definition c_fopen :: "string \<Rightarrow> string \<Rightarrow> world \<Rightarrow> string list option \<times> world" where
  "c_fopen path mode w =
     (if mode = ''rb'' then
        (case (case fault w SYS_fopen_rb path of
                 Some x \<Rightarrow> Inl (errno_of_fault x)
               | None \<Rightarrow> lookup path w) of
           Inl e \<Rightarrow> (None, log_event (EvFopen path mode False) (set_errno e w))
         | Inr (r, n) \<Rightarrow> (Some r, log_event (EvFopen path mode True) w))
      else if mode = ''wb'' then
        (case (case fault w SYS_fopen_wb path of
                 Some x \<Rightarrow> Inl (errno_of_fault x)
               | None \<Rightarrow>
                   if path \<noteq> [] \<and> last path = CHR ''/'' then
                     (case resolve True (strip_slashes path) w of
                        Inl e \<Rightarrow> Inl e
                      | Inr r \<Rightarrow> Inl EISDIR)
                   else
                     (case resolve True path w of
                        Inl e \<Rightarrow> Inl e
                      | Inr r \<Rightarrow>
                          (case fs w r of
                             Some (Dir p) \<Rightarrow> Inl EISDIR
                           | Some (Lnk t) \<Rightarrow> Inl ELOOP
                           | Some (Reg p d t) \<Rightarrow> Inr (r, Reg p [] (clock w))
                           | None \<Rightarrow>
                               if has_parent_dir w r
                               then Inr (r, Reg (0x1B6 AND NOT (umask w)) [] (clock w))
                               else Inl ENOENT))) of
           Inl e \<Rightarrow> (None, log_event (EvFopen path mode False) (set_errno e w))
         | Inr (r, n) \<Rightarrow> (Some r, log_event (EvFopen path mode True) (w\<lparr>fs := (fs w)(r \<mapsto> n)\<rparr>)))
      else (None, log_event (EvFopen path mode False) (set_errno EINVAL w)))"

text \<open>
  \<open>fwrite(buf, 1, n, out)\<close>: appends the bytes the stream accepts and returns their number.
\<close>

definition c_fwrite :: "8 word list \<Rightarrow> nat \<Rightarrow> string list \<Rightarrow> world \<Rightarrow> nat \<times> world" where
  "c_fwrite buf n out w =
     (let k = (case fwrite_limit w out of None \<Rightarrow> n | Some l \<Rightarrow> min l n);
          w1 = (case fs w out of
                  Some (Reg p d t) \<Rightarrow> w\<lparr>fs := (fs w)(out \<mapsto> Reg p (d @ take k buf) (clock w))\<rparr>
                | _ \<Rightarrow> w);
          w2 = (if k < n then set_errno ENOSPC w1 else w1)
      in (k, log_event (EvFwrite out n k) w2))"

definition c_fclose :: "string list \<Rightarrow> world \<Rightarrow> world" where
  "c_fclose stream w = log_event (EvFclose stream) w"

text \<open>
  \<open>fseek(in, 0, SEEK_END); ftell(in); rewind(in)\<close>: the length of a regular file. What the end
  offset of a directory is depends on the file system: it is the input \<open>dir_seek_end\<close>.
\<close>

definition c_ftell_end :: "string list \<Rightarrow> world \<Rightarrow> int \<times> world" where
  "c_ftell_end stream w =
     (let n = (case fs w stream of
                 Some (Reg p d t) \<Rightarrow> int (length d)
               | Some (Dir p) \<Rightarrow> dir_seek_end w
               | _ \<Rightarrow> - 1)
      in (n, log_event (EvFtell stream n) w))"

text \<open>
  \<open>fread(buf, 1, n, in)\<close> from the start of the file: the bytes delivered (their number is the
  return value). A directory delivers nothing.
\<close>

definition c_fread :: "nat \<Rightarrow> string list \<Rightarrow> world \<Rightarrow> 8 word list \<times> world" where
  "c_fread n stream w =
     (let k = (case fread_limit w stream of None \<Rightarrow> n | Some l \<Rightarrow> min l n);
          buf = (case fs w stream of Some (Reg p d t) \<Rightarrow> take k d | _ \<Rightarrow> [])
      in (buf, log_event (EvFread stream n (length buf)) w))"

text \<open>
  The allocator of SQLite: \<open>sqlite3_malloc64(n)\<close> (\<open>False\<close> is the NULL pointer; a request for 0
  bytes returns NULL), \<open>sqlite3_free\<close>, and \<open>sqlite3_mprintf("%s", z)\<close> and \<open>sqlite3_vmprintf\<close>,
  which allocate the formatted string and its terminator.
\<close>

definition sqlite3_malloc64 :: "nat \<Rightarrow> world \<Rightarrow> bool \<times> world" where
  "sqlite3_malloc64 n w =
     (let ok = (n \<noteq> 0 \<and> \<not> malloc_fails w n) in (ok, log_event (EvMalloc n ok) w))"

definition sqlite3_free :: "world \<Rightarrow> world" where
  "sqlite3_free w = log_event EvFree w"

definition sqlite3_mprintf :: "string \<Rightarrow> world \<Rightarrow> string option \<times> world" where
  "sqlite3_mprintf z w =
     (if malloc_fails w (length z + 1) then (None, log_event (EvMprintf z False) w)
      else (Some z, log_event (EvMprintf z True) w))"

definition sqlite3_vmprintf :: "string \<Rightarrow> world \<Rightarrow> string option \<times> world" where
  "sqlite3_vmprintf z w =
     (if malloc_fails w (length z + 1) then (None, log_event (EvVmprintf z False) w)
      else (Some z, log_event (EvVmprintf z True) w))"

text \<open>A format with one \<open>%s\<close>, filled in.\<close>

fun format_s :: "string \<Rightarrow> string \<Rightarrow> string" where
  "format_s [] a = []"
| "format_s [c] a = [c]"
| "format_s (c # d # cs) a =
     (if c = CHR ''%'' \<and> d = CHR ''s'' then a @ cs else c # format_s (d # cs) a)"

section \<open>The functions of \<open>scalar.c\<close>\<close>

subsection \<open>Reading\<close>

text \<open>The stream \<open>in\<close> of the code is \<open>inp\<close> here.\<close>

definition readFileContents :: "sqlite3_context \<Rightarrow> string \<Rightarrow> world \<Rightarrow> sqlite3_context \<times> world" where
  "readFileContents ctx zName w =
     (case c_fopen zName ''rb'' w of
        (None, w1) \<Rightarrow> (ctx, w1)
      | (Some inp, w1) \<Rightarrow>
          (case c_ftell_end inp w1 of
             (nIn, w2) \<Rightarrow>
               let mxBlob = sqlite3_limit_length ctx
               in if nIn > mxBlob then
                    (sqlite3_result_error_code ctx SQLITE_TOOBIG, c_fclose inp w2)
                  else
                    (case sqlite3_malloc64 (nat (if nIn \<noteq> 0 then nIn else 1)) w2 of
                       (False, w3) \<Rightarrow> (sqlite3_result_error_nomem ctx, c_fclose inp w3)
                     | (True, w3) \<Rightarrow>
                         (case c_fread (nat nIn) inp w3 of
                            (pBuf, w4) \<Rightarrow>
                              if nIn = int (length pBuf) then
                                (sqlite3_result_blob64 ctx pBuf (nat nIn), c_fclose inp w4)
                              else
                                (sqlite3_result_error_code ctx SQLITE_IOERR,
                                 c_fclose inp (sqlite3_free w4))))))"

text \<open>\<open>readfile\<close> is registered with one argument, so \<open>argv[0]\<close> exists.\<close>

definition sqlite3_readfile ::
  "sqlite3_context \<Rightarrow> sqlite3_value list \<Rightarrow> world \<Rightarrow> sqlite3_context \<times> world" where
  "sqlite3_readfile context argv w =
     (case sqlite3_value_text (argv ! 0) of
        None \<Rightarrow> (context, w)
      | Some zName \<Rightarrow> readFileContents context zName w)"

definition ctxErrorMsg ::
  "sqlite3_context \<Rightarrow> string \<Rightarrow> string \<Rightarrow> world \<Rightarrow> sqlite3_context \<times> world" where
  "ctxErrorMsg ctx zFmt arg w =
     (case sqlite3_vmprintf (format_s zFmt arg) w of
        (zMsg, w1) \<Rightarrow> (sqlite3_result_error ctx zMsg, sqlite3_free w1))"

subsection \<open>Directories\<close>

definition fileStat :: "string \<Rightarrow> world \<Rightarrow> 32 word option \<times> world" where
  "fileStat zPath w = c_stat zPath w"

text \<open>The inner \<open>for\<close> loop of \<open>makeParentDirectory\<close>: the first index from \<open>i\<close> on that holds a
  slash, or \<open>nCopy\<close> when there is none.\<close>

definition scan_slash :: "string \<Rightarrow> nat \<Rightarrow> nat" where
  "scan_slash zCopy i = i + length (takeWhile (\<lambda>c. c \<noteq> CHR ''/'') (drop i zCopy))"

text \<open>
  The body of the \<open>while\<close> loop once \<open>zCopy[i]\<close> has been set to NUL: the C string in \<open>zCopy\<close> is
  then its first \<open>i\<close> characters.
\<close>

definition mpd_step :: "string \<Rightarrow> nat \<Rightarrow> world \<Rightarrow> int \<times> world" where
  "mpd_step zCopy i w =
     (case fileStat (take i zCopy) w of
        (None, w1) \<Rightarrow>
          (case c_mkdir (take i zCopy) 0x1FF w1 of
             (r, w2) \<Rightarrow> (if r \<noteq> 0 then SQLITE_ERROR else SQLITE_OK, w2))
      | (Some st_mode, w1) \<Rightarrow> (if \<not> S_ISDIR st_mode then SQLITE_ERROR else SQLITE_OK, w1))"

text \<open>
  The \<open>while\<close> loop. The code starts it at \<open>i = 1\<close>; for the empty string that index is already
  past the terminator (\<open>nCopy < i\<close>): the scan stops at once (\<open>i < nCopy\<close> is false whatever the
  byte read there), \<open>i\<close> differs from \<open>nCopy\<close>, and the body runs once on the string \<open>""\<close>, whose
  \<open>stat\<close> and \<open>mkdir\<close> both fail, which ends the loop. That branch is written out, without a
  recursive call.
\<close>

function mpd_loop :: "string \<Rightarrow> nat \<Rightarrow> int \<Rightarrow> world \<Rightarrow> int \<times> world" where
  "mpd_loop zCopy i rc w =
     (if rc \<noteq> SQLITE_OK then (rc, w)
      else
        let j = scan_slash zCopy i
        in if j = length zCopy then (rc, w)
           else (case mpd_step zCopy j w of
                   (rc', w') \<Rightarrow>
                     if length zCopy < j then (rc', w')
                     else mpd_loop zCopy (j + 1) rc' w'))"
  by pat_completeness auto
termination
  by (relation "measure (\<lambda>(zCopy, i, rc, w). length zCopy - i)")
     (auto simp: scan_slash_def)

declare mpd_loop.simps [simp del]

definition makeParentDirectory :: "string \<Rightarrow> world \<Rightarrow> int \<times> world" where
  "makeParentDirectory zFile w =
     (case sqlite3_mprintf zFile w of
        (None, w1) \<Rightarrow> (SQLITE_NOMEM, w1)
      | (Some zCopy, w1) \<Rightarrow>
          (case mpd_loop zCopy 1 SQLITE_OK w1 of
             (rc, w2) \<Rightarrow> (rc, sqlite3_free w2)))"

definition makeDirectory :: "sqlite3_context \<Rightarrow> string \<Rightarrow> 32 word \<Rightarrow> world \<Rightarrow> int \<times> world" where
  "makeDirectory ctx path mode w =
     (case c_mkdir path mode w of
        (res, w1) \<Rightarrow>
          if res \<noteq> 0 then
            if errno w1 \<noteq> EEXIST then (1, w1)
            else (case fileStat path w1 of
                    (None, w2) \<Rightarrow> (1, w2)
                  | (Some st_mode, w2) \<Rightarrow>
                      if \<not> S_ISDIR st_mode then (1, w2)
                      else if st_mode AND 0x1FF \<noteq> mode AND 0x1FF then
                        (case c_chmod path (mode AND 0x1FF) w2 of
                           (r, w3) \<Rightarrow> if r \<noteq> 0 then (1, w3) else (0, w3))
                      else (0, w2))
          else (0, w1))"

subsection \<open>Symbolic links\<close>

text \<open>\<open>int res = symlink(src, dst) < 0; if (res < 0) return 1; return 0;\<close>\<close>

definition createSymlink ::
  "sqlite3_context \<Rightarrow> string \<Rightarrow> string option \<Rightarrow> world \<Rightarrow> int \<times> world" where
  "createSymlink ctx src dst w =
     (case c_symlink src dst w of
        (r, w1) \<Rightarrow>
          let res = (if r < 0 then 1 else 0 :: int)
          in if res < 0 then (1, w1) else (0, w1))"

subsection \<open>Writing\<close>

definition writeFile ::
  "sqlite3_context \<Rightarrow> string \<Rightarrow> sqlite3_value \<Rightarrow> 32 word \<Rightarrow> int \<Rightarrow> world
     \<Rightarrow> int \<times> sqlite3_context \<times> world" where
  "writeFile pCtx zFile pData mode mtime w =
     (case c_fopen zFile ''wb'' w of
        (None, w1) \<Rightarrow> (1, pCtx, w1)
      | (Some out, w1) \<Rightarrow>
          (case (case sqlite3_value_blob pData of
                   None \<Rightarrow> (0, 0 :: int, w1)
                 | Some z \<Rightarrow>
                     (case c_fwrite z (sqlite3_value_bytes pData) out w1 of
                        (n, w2) \<Rightarrow>
                          (sqlite3_value_bytes pData,
                           if sqlite3_value_bytes pData \<noteq> n then 1 else 0, w2))) of
             (nWrite, rc, w2) \<Rightarrow>
               (case (let w3 = c_fclose out w2
                      in if rc = 0 \<and> mode \<noteq> 0 then
                           (case c_chmod zFile mode w3 of
                              (r, w4) \<Rightarrow> (if r \<noteq> 0 then 1 else rc, w4))
                         else (rc, w3)) of
                  (rc, w4) \<Rightarrow>
                    if rc \<noteq> 0 then (2, pCtx, w4)
                    else
                      let pCtx1 = sqlite3_result_int64 pCtx (int nWrite)
                      in if mtime \<ge> 0 then
                           (case c_utimes zFile (clock w4) mtime w4 of
                              (r, w5) \<Rightarrow> if r \<noteq> 0 then (1, pCtx1, w5) else (0, pCtx1, w5))
                         else (0, pCtx1, w4))))"

text \<open>
  Lines 392 to 397 of \<open>sqlite3_writefile\<close>: the call of \<open>writeFile\<close>, and the second call after
  \<open>makeParentDirectory\<close>. The value returned first is the variable \<open>res\<close>.
\<close>

definition writefile_res ::
  "sqlite3_context \<Rightarrow> string \<Rightarrow> sqlite3_value \<Rightarrow> 32 word \<Rightarrow> int \<Rightarrow> world
     \<Rightarrow> int \<times> sqlite3_context \<times> world" where
  "writefile_res context zFile pData perm mtime w =
     (case writeFile context zFile pData perm mtime w of
        (res, ctx1, w1) \<Rightarrow>
          if res = 1 \<and> errno w1 = ENOENT then
            (case makeParentDirectory zFile w1 of
               (rc, w2) \<Rightarrow>
                 if rc = SQLITE_OK then writeFile ctx1 zFile pData perm mtime w2
                 else (res, ctx1, w2))
          else (res, ctx1, w1))"

definition sqlite3_writefile ::
  "sqlite3_context \<Rightarrow> sqlite3_value list \<Rightarrow> world \<Rightarrow> sqlite3_context \<times> world" where
  "sqlite3_writefile context argv w =
     (let argc = length argv
      in if argc < 2 \<or> argc > 4 then
           (sqlite3_result_error context
              (Some ''wrong number of arguments to function writefile()''), w)
         else
           (case sqlite3_value_text (argv ! 0) of
              None \<Rightarrow> (context, w)
            | Some zFile \<Rightarrow>
                let perm = (if argc \<ge> 3 then sqlite3_value_int (argv ! 2) else 0x1B6);
                    mtime = (if argc = 4 then sqlite3_value_int64 (argv ! 3) else - 1)
                in (case writefile_res context zFile (argv ! 1) perm mtime w of
                      (res, ctx1, w1) \<Rightarrow>
                        if argc > 2 \<and> res \<noteq> 0
                        then ctxErrorMsg ctx1 ''failed to write file: %s'' zFile w1
                        else (ctx1, w1))))"

definition sqlite3_symlink ::
  "sqlite3_context \<Rightarrow> sqlite3_value list \<Rightarrow> world \<Rightarrow> sqlite3_context \<times> world" where
  "sqlite3_symlink context argv w =
     (let argc = length argv
      in if argc \<noteq> 2 then
           (sqlite3_result_error context
              (Some ''wrong number of arguments to function symlink()''), w)
         else
           (case sqlite3_value_text (argv ! 0) of
              None \<Rightarrow> (context, w)
            | Some src \<Rightarrow>
                let dst = sqlite3_value_text (argv ! 1)
                in (case createSymlink context src dst w of
                      (res, w1) \<Rightarrow>
                        if res \<noteq> 0
                        then ctxErrorMsg context ''failed to create symlink to: %s'' src w1
                        else (context, w1))))"

definition sqlite3_mkdir ::
  "sqlite3_context \<Rightarrow> sqlite3_value list \<Rightarrow> world \<Rightarrow> sqlite3_context \<times> world" where
  "sqlite3_mkdir context argv w =
     (let argc = length argv
      in if argc \<noteq> 1 \<and> argc \<noteq> 2 then
           (sqlite3_result_error context
              (Some ''wrong number of arguments to function mkdir()''), w)
         else
           (case sqlite3_value_text (argv ! 0) of
              None \<Rightarrow> (context, w)
            | Some path \<Rightarrow>
                let perm = (if argc = 2 then sqlite3_value_int (argv ! 1) else 0x1FF)
                in (case makeDirectory context path perm w of
                      (res, w1) \<Rightarrow>
                        if res \<noteq> 0
                        then ctxErrorMsg context ''failed to create directory: %s'' path w1
                        else (context, w1))))"

text \<open>\<open>lsmode\<close> is registered with one argument.\<close>

definition sqlite3_lsmode :: "sqlite3_context \<Rightarrow> sqlite3_value list \<Rightarrow> sqlite3_context" where
  "sqlite3_lsmode context argv = sqlite3_result_text context (lsmode (sqlite3_value_int (argv ! 0)))"

section \<open>Notions used to state the properties\<close>

text \<open>
  The ancestor prefixes of a path, left to right: the text before each slash, except a slash that
  is the first character. The path itself is not among them.
\<close>

definition prefixes_from :: "string \<Rightarrow> nat \<Rightarrow> string list" where
  "prefixes_from zFile i =
     map (\<lambda>k. take k zFile) (filter (\<lambda>k. zFile ! k = CHR ''/'') [i..<length zFile])"

definition slash_prefixes :: "string \<Rightarrow> string list" where
  "slash_prefixes zFile = prefixes_from zFile 1"

text \<open>The paths of the \<open>stat\<close> calls in a log, in order.\<close>

fun stat_path :: "event \<Rightarrow> string list" where
  "stat_path (EvStat p x) = [p]"
| "stat_path ev = []"

definition stat_paths :: "event list \<Rightarrow> string list" where
  "stat_paths evs = concat (map stat_path evs)"

text \<open>
  A log of probes: each probe is a \<open>stat\<close> that succeeds, or a \<open>stat\<close> that fails followed at
  once by \<open>mkdir\<close> of the same path with mode 0777; nothing else.
\<close>

fun probe_log :: "event list \<Rightarrow> bool" where
  "probe_log [] = True"
| "probe_log (EvStat p (Some m) # evs) = probe_log evs"
| "probe_log (EvStat p None # EvMkdir q m r # evs) = (q = p \<and> m = 0x1FF \<and> probe_log evs)"
| "probe_log evs = False"

text \<open>
  The second namespace keeps every entry of the first as it is, and every entry it adds is a
  directory.
\<close>

definition only_adds_dirs ::
  "(string list \<Rightarrow> inode option) \<Rightarrow> (string list \<Rightarrow> inode option) \<Rightarrow> bool" where
  "only_adds_dirs f f' \<longleftrightarrow>
     (\<forall>q n. f q = Some n \<longrightarrow> f' q = Some n) \<and>
     (\<forall>q n. f q = None \<and> f' q = Some n \<longrightarrow> (\<exists>m. n = Dir m))"

text \<open>
  What the loop of \<open>makeParentDirectory\<close>, started at index \<open>i\<close> in world \<open>w\<close>, has done when it
  ends with \<open>rc\<close> in world \<open>w'\<close>.
\<close>

definition mpd_post :: "string \<Rightarrow> nat \<Rightarrow> world \<Rightarrow> int \<Rightarrow> world \<Rightarrow> bool" where
  "mpd_post z i w rc w' \<longleftrightarrow>
     only_adds_dirs (fs w) (fs w') \<and> (rc = SQLITE_OK \<or> rc = SQLITE_ERROR)
     \<and> (\<exists>evs. trace w' = trace w @ evs \<and> probe_log evs
           \<and> (\<exists>k. stat_paths evs = take k (prefixes_from z i))
           \<and> (rc = SQLITE_OK \<longrightarrow> stat_paths evs = prefixes_from z i)
           \<and> (\<forall>p m. EvStat p (Some m) \<in> set evs \<and> \<not> S_ISDIR m \<longrightarrow> rc = SQLITE_ERROR)
           \<and> (\<forall>p m r. EvMkdir p m r \<in> set evs \<longrightarrow> p \<in> set (prefixes_from z i)))"

text \<open>
  Two namespaces in which path resolution agrees: a directory stays a directory, a symbolic link
  stays the same link, and nothing else becomes a link.
\<close>

definition walk_compatible ::
  "(string list \<Rightarrow> inode option) \<Rightarrow> (string list \<Rightarrow> inode option) \<Rightarrow> bool" where
  "walk_compatible f f' \<longleftrightarrow>
     (\<forall>q. case f q of
            Some (Dir m) \<Rightarrow> (\<exists>m'. f' q = Some (Dir m'))
          | Some (Lnk t) \<Rightarrow> f' q = Some (Lnk t)
          | _ \<Rightarrow> (\<forall>t. f' q \<noteq> Some (Lnk t)))"

text \<open>The inputs of the model that no library call changes.\<close>

definition same_env :: "world \<Rightarrow> world \<Rightarrow> bool" where
  "same_env w w' \<longleftrightarrow>
     cwd w' = cwd w \<and> umask w' = umask w \<and> clock w' = clock w
     \<and> dir_seek_end w' = dir_seek_end w \<and> fault w' = fault w
     \<and> fwrite_limit w' = fwrite_limit w \<and> fread_limit w' = fread_limit w
     \<and> malloc_fails w' = malloc_fails w"

text \<open>Kinds of events, for counting them in a log.\<close>

fun is_mprintf :: "event \<Rightarrow> bool" where
  "is_mprintf (EvMprintf z ok) = True"
| "is_mprintf ev = False"

fun is_fopen :: "event \<Rightarrow> bool" where
  "is_fopen (EvFopen path mode ok) = True"
| "is_fopen ev = False"

text \<open>
  World \<open>w'\<close> comes from world \<open>w\<close> by work on one open file: the path \<open>zFile\<close> resolves to \<open>out\<close>,
  which is a regular file with content \<open>d\<close> now and was a regular file or absent before, and no
  other entry differs.
\<close>

definition file_at :: "string \<Rightarrow> string list \<Rightarrow> world \<Rightarrow> 8 word list \<Rightarrow> world \<Rightarrow> bool" where
  "file_at zFile out w d w' \<longleftrightarrow>
     same_env w w' \<and> resolve True zFile w' = Inr out
     \<and> (\<exists>p t. fs w' out = Some (Reg p d t))
     \<and> (\<forall>q. q \<noteq> out \<longrightarrow> fs w' q = fs w q)
     \<and> (fs w out = None \<or> (\<exists>p d0 t. fs w out = Some (Reg p d0 t)))"

text \<open>The bytes \<open>writeFile\<close> is asked to write: none when \<open>sqlite3_value_blob\<close> is NULL.\<close>

definition blob_bytes :: "sqlite3_value \<Rightarrow> 8 word list" where
  "blob_bytes pData = (case sqlite3_value_blob pData of None \<Rightarrow> [] | Some z \<Rightarrow> z)"

text \<open>A log without any \<open>fopen\<close> or \<open>sqlite3_mprintf\<close>.\<close>

definition quiet :: "event list \<Rightarrow> bool" where
  "quiet evs \<longleftrightarrow> (\<forall>e\<in>set evs. \<not> is_fopen e \<and> \<not> is_mprintf e)"

section \<open>Example states\<close>

text \<open>
  A small world: the root and \<open>/tmp\<close> exist, \<open>/tmp/f.txt\<close> holds three bytes, the umask is 022,
  nothing is refused. And a fresh function context with the default length limit of SQLite.
\<close>

definition world0 :: world where
  "world0 =
     \<lparr>fs = (Map.empty([] \<mapsto> Dir 0x1ED, [''tmp''] \<mapsto> Dir 0x1FF,
                        [''tmp'', ''f.txt''] \<mapsto> Reg 0x1A4 [0x61, 0x62, 0x63] 900)),
      cwd = [''tmp''], umask = 0x12, clock = 1000, dir_seek_end = 0,
      fault = (\<lambda>s p. None), fwrite_limit = (\<lambda>p. None), fread_limit = (\<lambda>p. None),
      malloc_fails = (\<lambda>n. False), errno = EINVAL, trace = []\<rparr>"

definition ctx0 :: sqlite3_context where
  "ctx0 = \<lparr>limit_length = 1000000000, result = R_NULL\<rparr>"

section \<open>The permission formatter\<close>

lemma and_4_bit: "(w AND 4 \<noteq> 0) = bit (w :: 32 word) 2"
  using and_exp_eq_0_iff_not_bit [of w 2] by simp

lemma and_2_bit: "(w AND 2 \<noteq> 0) = bit (w :: 32 word) 1"
  using and_exp_eq_0_iff_not_bit [of w 1] by simp

lemma and_1_bit: "(w AND 1 \<noteq> 0) = bit (w :: 32 word) 0"
  using and_exp_eq_0_iff_not_bit [of w 0] by simp

lemma bit_signed_drop_bit_low:
  "k + n < 31 \<Longrightarrow> bit (signed_drop_bit k (m :: 32 word)) n = bit m (k + n)"
  by (auto simp: bit_signed_drop_bit_iff)

lemma replicate_16: "replicate 16 c = [c, c, c, c, c, c, c, c, c, c, c, c, c, c, c, c]"
  by (simp add: numeral_eq_Suc)

lemma lsmode_explicit:
  "lsmode m =
     [if S_ISLNK m then CHR ''l'' else if S_ISREG m then CHR ''-''
      else if S_ISDIR m then CHR ''d'' else CHR ''?'',
      if bit m 8 then CHR ''r'' else CHR ''-'',
      if bit m 7 then CHR ''w'' else CHR ''-'',
      if bit m 6 then CHR ''x'' else CHR ''-'',
      if bit m 5 then CHR ''r'' else CHR ''-'',
      if bit m 4 then CHR ''w'' else CHR ''-'',
      if bit m 3 then CHR ''x'' else CHR ''-'',
      if bit m 2 then CHR ''r'' else CHR ''-'',
      if bit m 1 then CHR ''w'' else CHR ''-'',
      if bit m 0 then CHR ''x'' else CHR ''-'']"
  unfolding lsmode_def lsmode_buf_def lsmode_step_def Let_def replicate_16
    and_4_bit and_2_bit and_1_bit
  by (simp add: bit_signed_drop_bit_low numeral_2_eq_2)

lemma file_kinds_exclusive:
  "\<not> (S_ISLNK m \<and> S_ISREG m)" "\<not> (S_ISLNK m \<and> S_ISDIR m)" "\<not> (S_ISREG m \<and> S_ISDIR m)"
  by (auto simp: S_ISLNK_def S_ISREG_def S_ISDIR_def S_IFLNK_def S_IFREG_def S_IFDIR_def)

lemma lsmode_perm_char:
  assumes "j \<in> {1..9}"
  shows "lsmode m ! j = (if bit m (9 - j) then ''rwxrwxrwx'' ! (j - 1) else CHR ''-'')"
proof -
  from assms
  have "j = 1 \<or> j = 2 \<or> j = 3 \<or> j = 4 \<or> j = 5 \<or> j = 6 \<or> j = 7 \<or> j = 8 \<or> j = 9"
    by auto
  then show ?thesis
    by (elim disjE) (simp_all add: lsmode_explicit)
qed

lemma lsmode_regular_all: "lsmode 0x81FF = ''-rwxrwxrwx''"
  by code_simp

lemma lsmode_directory_none: "lsmode 0x4000 = ''d---------''"
  by code_simp

lemma list_of_16:
  assumes "length (z :: 'a list) = 16"
  shows "z = [z ! 0, z ! 1, z ! 2, z ! 3, z ! 4, z ! 5, z ! 6, z ! 7, z ! 8, z ! 9, z ! 10,
              z ! 11, z ! 12, z ! 13, z ! 14, z ! 15]"
proof -
  have "map (nth z) [0..<16] = z"
    using map_nth [of z] assms by simp
  moreover have "[0..<16] = [0, 1, 2, 3, 4, 5, 6, 7, 8, 9, 10, 11, 12, 13, 14, 15 :: nat]"
    by code_simp
  ultimately show ?thesis
    by simp
qed

lemma lsmode_buf_list:
  "lsmode_buf [a0, a1, a2, a3, a4, a5, a6, a7, a8, a9, a10, a11, a12, a13, a14, a15] m = lsmode m"
  unfolding lsmode_explicit
  unfolding lsmode_buf_def lsmode_step_def Let_def and_4_bit and_2_bit and_1_bit
  by (simp add: bit_signed_drop_bit_low numeral_2_eq_2)

lemma lsmode_buf_any: "length z0 = 16 \<Longrightarrow> lsmode_buf z0 m = lsmode m"
  by (subst list_of_16 [of z0]) (simp_all only: lsmode_buf_list)

text \<open>
  C4. \<open>lsmode\<close> is a total function of the mode alone: what the 16-byte buffer held before makes
  no difference. Its result has ten characters. The first
  is \<open>l\<close> for a symbolic link, \<open>-\<close> for a regular file, \<open>d\<close> for a directory and \<open>?\<close> for anything
  else. Character \<open>j\<close>, for \<open>j\<close> from 1 to 9, is the letter of \<open>rwxrwxrwx\<close> at that place when bit
  \<open>9 - j\<close> of the mode is set (owner triad first), and \<open>-\<close> when it is not. A regular file with all
  nine permission bits gives \<open>-rwxrwxrwx\<close>, a directory with none gives \<open>d---------\<close>. The SQL
  function returns this text for every argument and never an error.
\<close>

theorem lsmode_format:
  "length (lsmode m) = 10
   \<and> (S_ISLNK m \<longrightarrow> lsmode m ! 0 = CHR ''l'')
   \<and> (S_ISREG m \<longrightarrow> lsmode m ! 0 = CHR ''-'')
   \<and> (S_ISDIR m \<longrightarrow> lsmode m ! 0 = CHR ''d'')
   \<and> (\<not> S_ISLNK m \<and> \<not> S_ISREG m \<and> \<not> S_ISDIR m \<longrightarrow> lsmode m ! 0 = CHR ''?'')
   \<and> (\<forall>j\<in>{1..9}. lsmode m ! j = (if bit m (9 - j) then ''rwxrwxrwx'' ! (j - 1) else CHR ''-''))
   \<and> lsmode 0x81FF = ''-rwxrwxrwx''
   \<and> lsmode 0x4000 = ''d---------''
   \<and> (length z0 = 16 \<longrightarrow> lsmode_buf z0 m = lsmode m)
   \<and> result (sqlite3_lsmode ctx [v]) = R_TEXT (lsmode (sqlite3_value_int v))"
proof -
  have len: "length (lsmode m) = 10"
    by (simp add: lsmode_explicit)
  have kind: "(S_ISLNK m \<longrightarrow> lsmode m ! 0 = CHR ''l'')
      \<and> (S_ISREG m \<longrightarrow> lsmode m ! 0 = CHR ''-'')
      \<and> (S_ISDIR m \<longrightarrow> lsmode m ! 0 = CHR ''d'')
      \<and> (\<not> S_ISLNK m \<and> \<not> S_ISREG m \<and> \<not> S_ISDIR m \<longrightarrow> lsmode m ! 0 = CHR ''?'')"
    using file_kinds_exclusive [of m] by (simp add: lsmode_explicit)
  have perms: "\<forall>j\<in>{1..9}. lsmode m ! j
      = (if bit m (9 - j) then ''rwxrwxrwx'' ! (j - 1) else CHR ''-'')"
    using lsmode_perm_char by blast
  have sql: "result (sqlite3_lsmode ctx [v]) = R_TEXT (lsmode (sqlite3_value_int v))"
    by (simp add: sqlite3_lsmode_def sqlite3_result_text_def)
  from len kind perms sql lsmode_regular_all lsmode_directory_none lsmode_buf_any show ?thesis
    by blast
qed

theorem lsmode_format_witness:
  "S_ISREG 0x81A4 \<and> 2 \<in> {1..9 :: nat} \<and> bit (0x81A4 :: 32 word) 7
   \<and> lsmode 0x81A4 ! 0 = CHR ''-'' \<and> lsmode 0x81A4 ! 2 = CHR ''w''"
proof -
  have reg: "S_ISREG 0x81A4"
    by code_simp
  have b: "bit (0x81A4 :: 32 word) 7"
    by code_simp
  have j: "2 \<in> {1..9 :: nat}"
    by simp
  from lsmode_format [of "0x81A4"] reg have c0: "lsmode 0x81A4 ! 0 = CHR ''-''"
    by blast
  from lsmode_format [of "0x81A4"] j
  have "lsmode 0x81A4 ! 2 = (if bit (0x81A4 :: 32 word) (9 - 2) then ''rwxrwxrwx'' ! (2 - 1) else CHR ''-'')"
    by blast
  with b have c2: "lsmode 0x81A4 ! 2 = CHR ''w''"
    by simp
  from reg j b c0 c2 show ?thesis
    by blast
qed

section \<open>Symbolic links\<close>

text \<open>
  C8. \<open>createSymlink\<close> stores the comparison \<open>symlink(src, dst) < 0\<close>, which is 0 or 1, and then
  tests that value for being negative: it returns 0 whatever \<open>symlink\<close> did, so \<open>sqlite3_symlink\<close>
  never reports a failure. In the example world the link path \<open>/tmp/f.txt\<close> is an existing file:
  \<open>symlink\<close> fails with \<open>EEXIST\<close>, the file is still a regular file, and the SQL function returns
  NULL without an error.
\<close>

theorem createSymlink_never_fails:
  "fst (createSymlink ctx src dst w) = 0
   \<and> fst (c_symlink ''target'' (Some ''/tmp/f.txt'') world0) = - 1
   \<and> errno (snd (c_symlink ''target'' (Some ''/tmp/f.txt'') world0)) = EEXIST
   \<and> fst (createSymlink ctx0 ''target'' (Some ''/tmp/f.txt'') world0) = 0
   \<and> result (fst (sqlite3_symlink ctx0 [SQL_TEXT ''target'', SQL_TEXT ''/tmp/f.txt''] world0))
       = R_NULL
   \<and> fs (snd (sqlite3_symlink ctx0 [SQL_TEXT ''target'', SQL_TEXT ''/tmp/f.txt''] world0))
         [''tmp'', ''f.txt'']
       = Some (Reg 0x1A4 [0x61, 0x62, 0x63] 900)"
proof -
  have g: "fst (createSymlink ctx src dst w) = 0"
    by (simp add: createSymlink_def split: prod.splits)
  have c1: "fst (c_symlink ''target'' (Some ''/tmp/f.txt'') world0) = - 1"
    by code_simp
  have c2: "errno (snd (c_symlink ''target'' (Some ''/tmp/f.txt'') world0)) = EEXIST"
    by code_simp
  have c3: "fst (createSymlink ctx0 ''target'' (Some ''/tmp/f.txt'') world0) = 0"
    by code_simp
  have c4: "result (fst (sqlite3_symlink ctx0 [SQL_TEXT ''target'', SQL_TEXT ''/tmp/f.txt''] world0))
      = R_NULL"
    by code_simp
  have c5: "fs (snd (sqlite3_symlink ctx0 [SQL_TEXT ''target'', SQL_TEXT ''/tmp/f.txt''] world0))
        [''tmp'', ''f.txt'']
      = Some (Reg 0x1A4 [0x61, 0x62, 0x63] 900)"
    by code_simp
  from g c1 c2 c3 c4 c5 show ?thesis by blast
qed

section \<open>Reading a file that cannot be opened\<close>

lemma c_fopen_rb_None_iff:
  "fst (c_fopen zName ''rb'' w) = None
   \<longleftrightarrow> fault w SYS_fopen_rb zName \<noteq> None \<or> (\<exists>e. lookup zName w = Inl e)"
  by (auto simp: c_fopen_def split: option.splits sum.splits prod.splits)

text \<open>
  C2. \<open>fopen(zName, "rb")\<close> returns NULL exactly when the open is refused or the path does not
  name an existing object. In that case \<open>readFileContents\<close> leaves the context as it was (the
  result stays NULL, no error is set) and the file system is unchanged; so does the SQL function
  \<open>readfile\<close> called on that path.
\<close>

theorem readfile_unopenable_is_null:
  "(fst (c_fopen zName ''rb'' w) = None
      \<longleftrightarrow> fault w SYS_fopen_rb zName \<noteq> None \<or> (\<exists>e. lookup zName w = Inl e))
   \<and> (fst (c_fopen zName ''rb'' w) = None \<longrightarrow>
        fst (readFileContents ctx zName w) = ctx
        \<and> fs (snd (readFileContents ctx zName w)) = fs w
        \<and> (sqlite3_value_text v = Some zName \<longrightarrow> fst (sqlite3_readfile ctx [v] w) = ctx))"
proof -
  have "fst (readFileContents ctx zName w) = ctx
        \<and> fs (snd (readFileContents ctx zName w)) = fs w
        \<and> (sqlite3_value_text v = Some zName \<longrightarrow> fst (sqlite3_readfile ctx [v] w) = ctx)"
    if "fst (c_fopen zName ''rb'' w) = None"
    using that
    by (auto simp: readFileContents_def sqlite3_readfile_def c_fopen_def log_event_def
          set_errno_def split: prod.splits option.splits sum.splits)
  with c_fopen_rb_None_iff show ?thesis
    by blast
qed

theorem readfile_unopenable_is_null_witness:
  "fst (c_fopen ''/tmp/missing'' ''rb'' world0) = None
   \<and> sqlite3_value_text (SQL_TEXT ''/tmp/missing'') = Some ''/tmp/missing''
   \<and> result (fst (sqlite3_readfile ctx0 [SQL_TEXT ''/tmp/missing''] world0)) = R_NULL"
proof -
  have h: "fst (c_fopen ''/tmp/missing'' ''rb'' world0) = None"
    by code_simp
  have t: "sqlite3_value_text (SQL_TEXT ''/tmp/missing'') = Some ''/tmp/missing''"
    by code_simp
  have r: "result ctx0 = R_NULL"
    by (simp add: ctx0_def)
  from readfile_unopenable_is_null [of "''/tmp/missing''" world0 ctx0 "SQL_TEXT ''/tmp/missing''"]
    t r h
  show ?thesis by simp
qed

section \<open>A NULL first argument\<close>

text \<open>
  C10, as stated, fails: \<open>writefile\<close> and \<open>mkdir\<close> are registered for any number of arguments and
  check the count before they look at the first argument, so \<open>writefile(NULL)\<close> and
  \<open>mkdir(NULL, 448, 0)\<close> raise the wrong-number-of-arguments error.
\<close>

theorem null_first_argument_counterexample:
  "sqlite3_value_text ([SQL_NULL] ! 0) = None
   \<and> result (fst (sqlite3_writefile ctx0 [SQL_NULL] world0))
       = R_ERROR (Some ''wrong number of arguments to function writefile()'')
   \<and> sqlite3_value_text ([SQL_NULL, SQL_INTEGER 448, SQL_INTEGER 0] ! 0) = None
   \<and> result (fst (sqlite3_mkdir ctx0 [SQL_NULL, SQL_INTEGER 448, SQL_INTEGER 0] world0))
       = R_ERROR (Some ''wrong number of arguments to function mkdir()'')"
  by (simp add: sqlite3_writefile_def sqlite3_mkdir_def sqlite3_result_error_def)

text \<open>
  C10, amended. When the first argument is NULL and the number of arguments is one the function
  accepts (2 to 4 for \<open>writefile\<close>, 1 or 2 for \<open>mkdir\<close>, 2 for \<open>symlink\<close>; \<open>readfile\<close> does not look
  at the count), the call returns with the context and the world exactly as they were: the result
  stays NULL, no error is set, and no library call is made.
\<close>

theorem null_first_argument:
  assumes "sqlite3_value_text (argv ! 0) = None"
  shows "sqlite3_readfile ctx argv w = (ctx, w)
         \<and> (2 \<le> length argv \<and> length argv \<le> 4 \<longrightarrow> sqlite3_writefile ctx argv w = (ctx, w))
         \<and> (length argv = 1 \<or> length argv = 2 \<longrightarrow> sqlite3_mkdir ctx argv w = (ctx, w))
         \<and> (length argv = 2 \<longrightarrow> sqlite3_symlink ctx argv w = (ctx, w))"
  using assms
  by (auto simp: sqlite3_readfile_def sqlite3_writefile_def sqlite3_mkdir_def sqlite3_symlink_def)

theorem null_first_argument_witness:
  "sqlite3_value_text ([SQL_NULL, SQL_BLOB [1]] ! 0) = None
   \<and> sqlite3_readfile ctx0 [SQL_NULL, SQL_BLOB [1]] world0 = (ctx0, world0)
   \<and> sqlite3_writefile ctx0 [SQL_NULL, SQL_BLOB [1]] world0 = (ctx0, world0)
   \<and> sqlite3_mkdir ctx0 [SQL_NULL, SQL_BLOB [1]] world0 = (ctx0, world0)
   \<and> sqlite3_symlink ctx0 [SQL_NULL, SQL_BLOB [1]] world0 = (ctx0, world0)"
proof -
  have h: "sqlite3_value_text ([SQL_NULL, SQL_BLOB [1]] ! 0) = None"
    by simp
  from null_first_argument [OF h, of ctx0 world0] h show ?thesis
    by simp
qed

section \<open>The result and the errors of \<open>writefile\<close>\<close>

lemma value_blob_None_bytes: "sqlite3_value_blob v = None \<Longrightarrow> sqlite3_value_bytes v = 0"
  by (cases v) (auto split: if_splits)

lemma writeFile_ok_result:
  "writeFile pCtx zFile pData mode mtime w = (0, c', w')
   \<Longrightarrow> c' = sqlite3_result_int64 pCtx (int (sqlite3_value_bytes pData))"
  unfolding writeFile_def Let_def
  by (auto split: prod.splits option.splits if_splits dest: value_blob_None_bytes)

lemma writeFile_fail_ctx:
  "writeFile pCtx zFile pData mode mtime w = (res, c', w') \<Longrightarrow> res \<noteq> 0 \<Longrightarrow> mtime < 0
   \<Longrightarrow> c' = pCtx"
  unfolding writeFile_def Let_def
  by (auto split: prod.splits option.splits if_splits)

lemma writefile_res_ok_result:
  "writefile_res ctx zFile pData perm mtime w = (0, c', w')
   \<Longrightarrow> result c' = R_INT64 (int (sqlite3_value_bytes pData))"
  unfolding writefile_res_def
  by (auto split: prod.splits if_splits dest!: writeFile_ok_result simp: sqlite3_result_int64_def)

lemma writefile_res_fail_ctx:
  "writefile_res ctx zFile pData perm mtime w = (res, c', w') \<Longrightarrow> res \<noteq> 0 \<Longrightarrow> mtime < 0
   \<Longrightarrow> c' = ctx"
  unfolding writefile_res_def
  by (auto split: prod.splits if_splits dest: writeFile_fail_ctx)

lemma format_write_msg: "format_s ''failed to write file: %s'' z = ''failed to write file: '' @ z"
  by simp

text \<open>
  C9, as stated, fails: a write that fails in a call with exactly two arguments raises no error.
  In the example world \<open>writefile('/', x'01')\<close> cannot open the root directory for writing; the
  variable \<open>res\<close> is 1, and the function returns NULL.
\<close>

theorem writefile_errors_counterexample:
  "fst (writefile_res ctx0 ''/'' (SQL_BLOB [1]) 0x1B6 (- 1) world0) = 1
   \<and> result (fst (sqlite3_writefile ctx0 [SQL_TEXT ''/'', SQL_BLOB [1]] world0)) = R_NULL
   \<and> \<not> is_error (result (fst (sqlite3_writefile ctx0 [SQL_TEXT ''/'', SQL_BLOB [1]] world0)))"
proof -
  have a: "fst (writefile_res ctx0 ''/'' (SQL_BLOB [1]) 0x1B6 (- 1) world0) = 1"
    by code_simp
  have b: "result (fst (sqlite3_writefile ctx0 [SQL_TEXT ''/'', SQL_BLOB [1]] world0)) = R_NULL"
    by code_simp
  from a b show ?thesis by simp
qed

text \<open>
  C9, amended. With fewer than 2 or more than 4 arguments \<open>writefile\<close> raises the error
  \<open>wrong number of arguments to function writefile()\<close> and touches nothing. With 2 to 4 arguments
  and a path that is not NULL, let \<open>res\<close> be the outcome of the write (with its one retry). When
  \<open>res\<close> is 0 the result is the number of bytes of the content, as an integer. When \<open>res\<close> is not 0
  and the call has 3 or 4 arguments, the result is an error whose message is
  \<open>failed to write file: \<close> followed by the path (no message when its allocation fails). When
  \<open>res\<close> is not 0 and the call has 2 arguments, no error is raised: the context is as it was before
  the call.
\<close>

theorem writefile_errors:
  fixes argv :: "sqlite3_value list"
  defines "perm \<equiv> (if length argv \<ge> 3 then sqlite3_value_int (argv ! 2) else 0x1B6)"
  defines "mtime \<equiv> (if length argv = 4 then sqlite3_value_int64 (argv ! 3) else - 1)"
  shows
   "(length argv < 2 \<or> length argv > 4 \<longrightarrow>
       sqlite3_writefile ctx argv w
         = (ctx\<lparr>result := R_ERROR (Some ''wrong number of arguments to function writefile()'')\<rparr>, w))
    \<and> (2 \<le> length argv \<and> length argv \<le> 4 \<and> sqlite3_value_text (argv ! 0) = Some zFile
        \<and> writefile_res ctx zFile (argv ! 1) perm mtime w = (res, ctx1, w1) \<longrightarrow>
         (res = 0 \<longrightarrow>
            sqlite3_writefile ctx argv w = (ctx1, w1)
            \<and> result ctx1 = R_INT64 (int (sqlite3_value_bytes (argv ! 1))))
         \<and> (res \<noteq> 0 \<and> length argv = 2 \<longrightarrow> sqlite3_writefile ctx argv w = (ctx, w1))
         \<and> (res \<noteq> 0 \<and> length argv > 2 \<longrightarrow>
              result (fst (sqlite3_writefile ctx argv w))
                = R_ERROR (if malloc_fails w1 (length (''failed to write file: '' @ zFile) + 1)
                           then None else Some (''failed to write file: '' @ zFile))))"
proof -
  have bad: "length argv < 2 \<or> length argv > 4 \<longrightarrow>
       sqlite3_writefile ctx argv w
         = (ctx\<lparr>result := R_ERROR (Some ''wrong number of arguments to function writefile()'')\<rparr>, w)"
    by (auto simp: sqlite3_writefile_def sqlite3_result_error_def)
  have good: "(res = 0 \<longrightarrow>
            sqlite3_writefile ctx argv w = (ctx1, w1)
            \<and> result ctx1 = R_INT64 (int (sqlite3_value_bytes (argv ! 1))))
         \<and> (res \<noteq> 0 \<and> length argv = 2 \<longrightarrow> sqlite3_writefile ctx argv w = (ctx, w1))
         \<and> (res \<noteq> 0 \<and> length argv > 2 \<longrightarrow>
              result (fst (sqlite3_writefile ctx argv w))
                = R_ERROR (if malloc_fails w1 (length (''failed to write file: '' @ zFile) + 1)
                           then None else Some (''failed to write file: '' @ zFile)))"
    if len: "2 \<le> length argv" "length argv \<le> 4"
      and vt: "sqlite3_value_text (argv ! 0) = Some zFile"
      and wr: "writefile_res ctx zFile (argv ! 1) perm mtime w = (res, ctx1, w1)"
  proof -
    have unfold: "sqlite3_writefile ctx argv w =
        (if length argv > 2 \<and> res \<noteq> 0
         then ctxErrorMsg ctx1 ''failed to write file: %s'' zFile w1 else (ctx1, w1))"
      using len vt wr unfolding sqlite3_writefile_def Let_def perm_def mtime_def
      by simp
    have ok: "res = 0 \<longrightarrow> result ctx1 = R_INT64 (int (sqlite3_value_bytes (argv ! 1)))"
      using wr writefile_res_ok_result by blast
    have silent: "res \<noteq> 0 \<and> length argv = 2 \<longrightarrow> ctx1 = ctx"
      using wr writefile_res_fail_ctx [of ctx zFile "argv ! 1" perm mtime w res ctx1 w1]
      by (auto simp: mtime_def)
    have msg: "result (fst (ctxErrorMsg ctx1 ''failed to write file: %s'' zFile w1))
        = R_ERROR (if malloc_fails w1 (length (''failed to write file: '' @ zFile) + 1)
                   then None else Some (''failed to write file: '' @ zFile))"
      unfolding ctxErrorMsg_def sqlite3_vmprintf_def format_write_msg
      by (simp add: sqlite3_result_error_def)
    from unfold ok silent msg show ?thesis
      by auto
  qed
  from bad good show ?thesis
    by blast
qed

theorem writefile_errors_witness:
  "result (fst (sqlite3_writefile ctx0 [SQL_TEXT ''/'', SQL_BLOB [1], SQL_INTEGER 420] world0))
     = R_ERROR (Some ''failed to write file: /'')
   \<and> result (fst (sqlite3_writefile ctx0 [SQL_TEXT ''/tmp/g.txt'', SQL_BLOB [1, 2]] world0)) = R_INT64 2
   \<and> fst (sqlite3_writefile ctx0 [SQL_TEXT ''/'', SQL_BLOB [1]] world0) = ctx0"
proof -
  let ?a3 = "[SQL_TEXT ''/'', SQL_BLOB [1], SQL_INTEGER 420]"
  let ?X = "writefile_res ctx0 ''/'' (SQL_BLOB [1]) 0x1A4 (- 1) world0"
  have x: "writefile_res ctx0 ''/'' (?a3 ! 1)
             (if length ?a3 \<ge> 3 then sqlite3_value_int (?a3 ! 2) else 0x1B6)
             (if length ?a3 = 4 then sqlite3_value_int64 (?a3 ! 3) else - 1) world0
           = (fst ?X, fst (snd ?X), snd (snd ?X))"
    by (simp add: sqlite3_value_int_def)
  have r: "fst ?X = 1"
    by code_simp
  have m: "\<not> malloc_fails (snd (snd ?X)) (length (''failed to write file: '' @ ''/'') + 1)"
    by code_simp
  have t: "sqlite3_value_text (?a3 ! 0) = Some ''/''"
    by code_simp
  from writefile_errors [of ?a3 ctx0 world0 "''/''" "fst ?X" "fst (snd ?X)" "snd (snd ?X)"] x r m t
  have one: "result (fst (sqlite3_writefile ctx0 ?a3 world0)) = R_ERROR (Some ''failed to write file: /'')"
    by simp
  let ?a2 = "[SQL_TEXT ''/tmp/g.txt'', SQL_BLOB [1, 2]]"
  let ?Y = "writefile_res ctx0 ''/tmp/g.txt'' (SQL_BLOB [1, 2]) 0x1B6 (- 1) world0"
  have y: "writefile_res ctx0 ''/tmp/g.txt'' (?a2 ! 1)
             (if length ?a2 \<ge> 3 then sqlite3_value_int (?a2 ! 2) else 0x1B6)
             (if length ?a2 = 4 then sqlite3_value_int64 (?a2 ! 3) else - 1) world0
           = (fst ?Y, fst (snd ?Y), snd (snd ?Y))"
    by simp
  have ry: "fst ?Y = 0"
    by code_simp
  have ty: "sqlite3_value_text (?a2 ! 0) = Some ''/tmp/g.txt''"
    by code_simp
  from writefile_errors [of ?a2 ctx0 world0 "''/tmp/g.txt''" "fst ?Y" "fst (snd ?Y)" "snd (snd ?Y)"] y ry ty
  have two: "result (fst (sqlite3_writefile ctx0 ?a2 world0)) = R_INT64 2"
    by simp
  let ?a1 = "[SQL_TEXT ''/'', SQL_BLOB [1]]"
  let ?Z = "writefile_res ctx0 ''/'' (SQL_BLOB [1]) 0x1B6 (- 1) world0"
  have z: "writefile_res ctx0 ''/'' (?a1 ! 1)
             (if length ?a1 \<ge> 3 then sqlite3_value_int (?a1 ! 2) else 0x1B6)
             (if length ?a1 = 4 then sqlite3_value_int64 (?a1 ! 3) else - 1) world0
           = (fst ?Z, fst (snd ?Z), snd (snd ?Z))"
    by simp
  have rz: "fst ?Z = 1"
    by code_simp
  have tz: "sqlite3_value_text (?a1 ! 0) = Some ''/''"
    by code_simp
  from writefile_errors [of ?a1 ctx0 world0 "''/''" "fst ?Z" "fst (snd ?Z)" "snd (snd ?Z)"] z rz tz
  have three: "fst (sqlite3_writefile ctx0 ?a1 world0) = ctx0"
    by simp
  from one two three show ?thesis by blast
qed

section \<open>Reading a file that can be opened\<close>

lemma c_fopen_rb_Some:
  assumes "c_fopen zName ''rb'' w = (Some inp, w1)"
  shows "w1 = log_event (EvFopen zName ''rb'' True) w \<and> (\<exists>n. lookup zName w = Inr (inp, n))"
  using assms
  by (auto simp: c_fopen_def split: option.splits sum.splits prod.splits)

lemma readFileContents_regular_eq:
  fixes ctx :: sqlite3_context
  assumes op: "c_fopen zName ''rb'' w = (Some inp, w1)"
    and reg: "fs w inp = Some (Reg p d t)"
  defines "sz \<equiv> (if d = [] then 1 else length d)"
    and "got \<equiv> (case fread_limit w inp of None \<Rightarrow> length d | Some l \<Rightarrow> min l (length d))"
    and "w2 \<equiv> log_event (EvFtell inp (int (length d))) (log_event (EvFopen zName ''rb'' True) w)"
  defines "w3 \<equiv> log_event (EvMalloc sz (\<not> malloc_fails w sz)) w2"
  defines "w4 \<equiv> log_event (EvFread inp (length d) got) w3"
  shows "readFileContents ctx zName w =
           (if int (length d) > limit_length ctx
            then (sqlite3_result_error_code ctx SQLITE_TOOBIG, c_fclose inp w2)
            else if malloc_fails w sz
            then (sqlite3_result_error_nomem ctx, c_fclose inp w3)
            else if got \<noteq> length d
            then (sqlite3_result_error_code ctx SQLITE_IOERR, c_fclose inp (sqlite3_free w4))
            else (sqlite3_result_blob64 ctx d (length d), c_fclose inp w4))"
proof -
  let ?n = "int (length d)"
  from c_fopen_rb_Some [OF op] have w1: "w1 = log_event (EvFopen zName ''rb'' True) w"
    by blast
  have tell: "c_ftell_end inp w1 = (?n, w2)"
    using reg by (simp add: c_ftell_end_def w1 w2_def log_event_def Let_def)
  have szn: "nat (if ?n \<noteq> 0 then ?n else 1) = sz"
    by (simp add: sz_def)
  have malloc: "sqlite3_malloc64 sz w2 = (\<not> malloc_fails w sz, w3)"
    by (simp add: sqlite3_malloc64_def w3_def w2_def log_event_def Let_def sz_def)
  have got_le: "got \<le> length d"
    by (simp add: got_def split: option.splits)
  have fread: "c_fread (length d) inp w3 = (take got d, w4)"
    using reg got_le
    by (simp add: c_fread_def w4_def w3_def w2_def log_event_def Let_def got_def
          split: option.splits)
  have len_take: "length (take got d) = got"
    using got_le by simp
  have nat_n: "nat ?n = length d"
    by simp
  show ?thesis
    unfolding readFileContents_def op prod.case option.case tell Let_def
      sqlite3_limit_length_def szn malloc fread len_take nat_n
    by (cases "malloc_fails w sz") auto
qed

text \<open>
  C6. Let \<open>fopen(zName, "rb")\<close> open a regular file with content \<open>d\<close>. The length found by the
  seek to the end is the length of \<open>d\<close>. If it exceeds the length limit of the connection the
  result is the error \<open>SQLITE_TOOBIG\<close> and nothing is allocated or read. Otherwise one buffer is
  requested, of exactly that length, or of 1 byte for an empty file. If the request is refused
  the result is the out-of-memory error. If \<open>fread\<close> delivers another number of bytes than the
  length, the result is the error \<open>SQLITE_IOERR\<close> and the buffer is freed; otherwise the result is
  the blob \<open>d\<close>, whole. The logs show the calls made in each case; the stream is closed in all of
  them, and the file system is not changed.
\<close>

theorem readFileContents_regular:
  fixes ctx :: sqlite3_context
  assumes op: "c_fopen zName ''rb'' w = (Some inp, w1)"
    and reg: "fs w inp = Some (Reg p d t)"
  defines "R \<equiv> readFileContents ctx zName w"
    and "sz \<equiv> (if d = [] then 1 else length d)"
    and "got \<equiv> (case fread_limit w inp of None \<Rightarrow> length d | Some l \<Rightarrow> min l (length d))"
  shows
    "fs (snd R) = fs w
     \<and> (int (length d) > limit_length ctx \<longrightarrow>
          result (fst R) = R_ERROR_CODE SQLITE_TOOBIG
          \<and> trace (snd R) = trace w @ [EvFopen zName ''rb'' True, EvFtell inp (int (length d)),
                                       EvFclose inp])
     \<and> (int (length d) \<le> limit_length ctx \<and> malloc_fails w sz \<longrightarrow>
          result (fst R) = R_ERROR_NOMEM
          \<and> trace (snd R) = trace w @ [EvFopen zName ''rb'' True, EvFtell inp (int (length d)),
                                       EvMalloc sz False, EvFclose inp])
     \<and> (int (length d) \<le> limit_length ctx \<and> \<not> malloc_fails w sz \<and> got \<noteq> length d \<longrightarrow>
          result (fst R) = R_ERROR_CODE SQLITE_IOERR
          \<and> trace (snd R) = trace w @ [EvFopen zName ''rb'' True, EvFtell inp (int (length d)),
                                       EvMalloc sz True, EvFread inp (length d) got, EvFree,
                                       EvFclose inp])
     \<and> (int (length d) \<le> limit_length ctx \<and> \<not> malloc_fails w sz \<and> got = length d \<longrightarrow>
          result (fst R) = R_BLOB d
          \<and> trace (snd R) = trace w @ [EvFopen zName ''rb'' True, EvFtell inp (int (length d)),
                                       EvMalloc sz True, EvFread inp (length d) (length d),
                                       EvFclose inp])"
  unfolding R_def sz_def got_def readFileContents_regular_eq [OF op reg]
  by (simp add: sqlite3_result_error_code_def sqlite3_result_error_nomem_def
        sqlite3_result_blob64_def c_fclose_def sqlite3_free_def log_event_def)

theorem readFileContents_regular_witness:
  "c_fopen ''/tmp/f.txt'' ''rb'' world0
     = (Some [''tmp'', ''f.txt''], snd (c_fopen ''/tmp/f.txt'' ''rb'' world0))
   \<and> fs world0 [''tmp'', ''f.txt''] = Some (Reg 0x1A4 [0x61, 0x62, 0x63] 900)
   \<and> result (fst (readFileContents ctx0 ''/tmp/f.txt'' world0)) = R_BLOB [0x61, 0x62, 0x63]
   \<and> result (fst (readFileContents (ctx0\<lparr>limit_length := 2\<rparr>) ''/tmp/f.txt'' world0))
       = R_ERROR_CODE SQLITE_TOOBIG
   \<and> result (fst (readFileContents ctx0 ''/tmp/f.txt'' (world0\<lparr>malloc_fails := (\<lambda>n. True)\<rparr>)))
       = R_ERROR_NOMEM
   \<and> result (fst (readFileContents ctx0 ''/tmp/f.txt'' (world0\<lparr>fread_limit := (\<lambda>s. Some 1)\<rparr>)))
       = R_ERROR_CODE SQLITE_IOERR"
proof -
  let ?P = "''/tmp/f.txt''" and ?r = "[''tmp'', ''f.txt'']"
  let ?wm = "world0\<lparr>malloc_fails := (\<lambda>n. True)\<rparr>" and ?wr = "world0\<lparr>fread_limit := (\<lambda>s. Some 1)\<rparr>"
  have o0: "fst (c_fopen ?P ''rb'' world0) = Some ?r"
    by code_simp
  have om: "fst (c_fopen ?P ''rb'' ?wm) = Some ?r"
    by code_simp
  have orr: "fst (c_fopen ?P ''rb'' ?wr) = Some ?r"
    by code_simp
  have op0: "c_fopen ?P ''rb'' world0 = (Some ?r, snd (c_fopen ?P ''rb'' world0))"
    using o0 by (metis prod.collapse)
  have opm: "c_fopen ?P ''rb'' ?wm = (Some ?r, snd (c_fopen ?P ''rb'' ?wm))"
    using om by (metis prod.collapse)
  have opr: "c_fopen ?P ''rb'' ?wr = (Some ?r, snd (c_fopen ?P ''rb'' ?wr))"
    using orr by (metis prod.collapse)
  have f0: "fs world0 ?r = Some (Reg 0x1A4 [0x61, 0x62, 0x63] 900)"
    by (simp add: world0_def)
  have fm: "fs ?wm ?r = Some (Reg 0x1A4 [0x61, 0x62, 0x63] 900)"
    by (simp add: world0_def)
  have fr: "fs ?wr ?r = Some (Reg 0x1A4 [0x61, 0x62, 0x63] 900)"
    by (simp add: world0_def)
  have a: "result (fst (readFileContents ctx0 ?P world0)) = R_BLOB [0x61, 0x62, 0x63]"
    using readFileContents_regular [OF op0 f0, of ctx0]
    by (simp add: world0_def ctx0_def)
  have b: "result (fst (readFileContents (ctx0\<lparr>limit_length := 2\<rparr>) ?P world0))
      = R_ERROR_CODE SQLITE_TOOBIG"
    using readFileContents_regular [OF op0 f0, of "ctx0\<lparr>limit_length := 2\<rparr>"]
    by simp
  have c: "result (fst (readFileContents ctx0 ?P ?wm)) = R_ERROR_NOMEM"
    using readFileContents_regular [OF opm fm, of ctx0]
    by (simp add: ctx0_def)
  have d: "result (fst (readFileContents ctx0 ?P ?wr)) = R_ERROR_CODE SQLITE_IOERR"
    using readFileContents_regular [OF opr fr, of ctx0]
    by (simp add: ctx0_def world0_def)
  from op0 f0 a b c d show ?thesis
    by blast
qed


section \<open>The directory builder\<close>

lemma only_adds_dirs_refl: "only_adds_dirs f f"
  by (auto simp: only_adds_dirs_def)

lemma only_adds_dirs_trans:
  "only_adds_dirs f g \<Longrightarrow> only_adds_dirs g h \<Longrightarrow> only_adds_dirs f h"
  unfolding only_adds_dirs_def
  by (metis option.exhaust)

lemma c_stat_effect:
  assumes "c_stat p w = (x, w')"
  shows "fs w' = fs w \<and> trace w' = trace w @ [EvStat p x]"
  using assms
  by (auto simp: c_stat_def log_event_def set_errno_def split: option.splits sum.splits prod.splits)

lemma c_mkdir_effect:
  assumes "c_mkdir p m w = (r, w')"
  shows "trace w' = trace w @ [EvMkdir p m r] \<and> (r = 0 \<or> r = - 1) \<and> only_adds_dirs (fs w) (fs w')"
  using assms
  by (auto simp: c_mkdir_def log_event_def set_errno_def only_adds_dirs_def
           split: option.splits sum.splits prod.splits if_splits)

lemma c_mkdir_empty: "fst (c_mkdir [] m w) = - 1"
  by (simp add: c_mkdir_def strip_slashes_def resolve_def split: option.splits)

lemma mpd_step_effect:
  assumes "mpd_step zCopy j w = (rc, w')"
  shows "only_adds_dirs (fs w) (fs w')
         \<and> (\<exists>blk. trace w' = trace w @ blk
               \<and> ((\<exists>m. blk = [EvStat (take j zCopy) (Some m)]
                         \<and> rc = (if S_ISDIR m then SQLITE_OK else SQLITE_ERROR))
                   \<or> (\<exists>r. blk = [EvStat (take j zCopy) None, EvMkdir (take j zCopy) 0x1FF r]
                         \<and> rc = (if r = 0 then SQLITE_OK else SQLITE_ERROR)
                         \<and> r = fst (c_mkdir (take j zCopy) 0x1FF (snd (c_stat (take j zCopy) w))))))"
proof (cases "fileStat (take j zCopy) w")
  case (Pair x w1)
  then have st: "c_stat (take j zCopy) w = (x, w1)"
    by (simp add: fileStat_def)
  note e1 = c_stat_effect [OF st]
  show ?thesis
  proof (cases x)
    case None
    obtain r w2 where mk: "c_mkdir (take j zCopy) 0x1FF w1 = (r, w2)"
      by (cases "c_mkdir (take j zCopy) 0x1FF w1")
    note e2 = c_mkdir_effect [OF mk]
    from assms Pair None mk have "rc = (if r = 0 then SQLITE_OK else SQLITE_ERROR)" "w' = w2"
      by (auto simp: mpd_step_def)
    with e1 e2 None st mk show ?thesis
      by auto
  next
    case (Some m)
    from assms Pair Some have "rc = (if S_ISDIR m then SQLITE_OK else SQLITE_ERROR)" "w' = w1"
      by (auto simp: mpd_step_def)
    with e1 Some show ?thesis
      by (auto simp: only_adds_dirs_refl)
  qed
qed

lemma scan_slash_bounds:
  assumes "i \<le> length z"
  shows "i \<le> scan_slash z i" "scan_slash z i \<le> length z"
    "scan_slash z i < length z \<Longrightarrow> z ! scan_slash z i = CHR ''/''"
    "\<And>k. i \<le> k \<Longrightarrow> k < scan_slash z i \<Longrightarrow> z ! k \<noteq> CHR ''/''"
proof -
  let ?t = "takeWhile (\<lambda>c. c \<noteq> CHR ''/'') (drop i z)"
  have len: "length ?t \<le> length (drop i z)"
    by (rule length_takeWhile_le)
  show "i \<le> scan_slash z i"
    by (simp add: scan_slash_def)
  show "scan_slash z i \<le> length z"
    using len assms by (simp add: scan_slash_def)
  show "z ! scan_slash z i = CHR ''/''" if "scan_slash z i < length z"
  proof -
    from that have lt: "length ?t < length (drop i z)"
      by (simp add: scan_slash_def)
    then have "\<not> (drop i z ! length ?t \<noteq> CHR ''/'')"
      by (rule nth_length_takeWhile)
    with lt show ?thesis
      by (simp add: scan_slash_def)
  qed
  show "z ! k \<noteq> CHR ''/''" if "i \<le> k" "k < scan_slash z i" for k
  proof -
    from that have kk: "k - i < length ?t"
      by (simp add: scan_slash_def)
    then have "?t ! (k - i) \<in> set ?t"
      by simp
    then have "?t ! (k - i) \<noteq> CHR ''/''"
      by (auto dest: set_takeWhileD)
    moreover have "?t ! (k - i) = drop i z ! (k - i)"
      using kk by (rule takeWhile_nth)
    ultimately show ?thesis
      using that len kk by simp
  qed
qed

lemma prefixes_from_scan:
  assumes "i \<le> length z"
  shows "prefixes_from z i =
           (if scan_slash z i = length z then []
            else take (scan_slash z i) z # prefixes_from z (scan_slash z i + 1))"
proof -
  let ?j = "scan_slash z i"
  let ?P = "\<lambda>k. z ! k = CHR ''/''"
  note b = scan_slash_bounds [OF assms]
  have split: "[i..<length z] = [i..<?j] @ [?j..<length z]"
    using b(1,2) by (metis le_Suc_ex upt_add_eq_append)
  have none: "filter ?P [i..<?j] = []"
    using b(4) by (auto simp: filter_empty_conv)
  show ?thesis
  proof (cases "?j = length z")
    case True
    with split none show ?thesis
      by (simp add: prefixes_from_def)
  next
    case False
    with b(2) have lt: "?j < length z" by simp
    then have "[?j..<length z] = ?j # [?j + 1..<length z]"
      by (simp add: upt_conv_Cons)
    with split none b(3) [OF lt] False show ?thesis
      by (simp add: prefixes_from_def)
  qed
qed


lemma stat_paths_simps [simp]:
  "stat_paths [] = []"
  "stat_paths (EvStat p x # evs) = p # stat_paths evs"
  "stat_paths (EvMkdir q m r # evs) = stat_paths evs"
  "stat_paths (a @ b) = stat_paths a @ stat_paths b"
  by (simp_all add: stat_paths_def)

lemma mpd_post_done: "i \<le> length z \<Longrightarrow> scan_slash z i = length z \<Longrightarrow> mpd_post z i w SQLITE_OK w"
  unfolding mpd_post_def
  by (rule conjI, rule only_adds_dirs_refl, rule conjI, simp, rule exI [of _ "[]"])
     (simp add: prefixes_from_scan)

lemma mpd_post_step:
  assumes i: "i \<le> length z" and j: "scan_slash z i \<noteq> length z"
    and st: "mpd_step z (scan_slash z i) w = (rc1, w1)"
    and rest: "(rc1 \<noteq> SQLITE_OK \<and> rc = rc1 \<and> w' = w1)
               \<or> (rc1 = SQLITE_OK \<and> mpd_post z (scan_slash z i + 1) w1 rc w')"
  shows "mpd_post z i w rc w'"
proof -
  let ?j = "scan_slash z i"
  let ?p = "take ?j z"
  have pf: "prefixes_from z i = ?p # prefixes_from z (?j + 1)"
    using prefixes_from_scan [OF i] j by simp
  from mpd_step_effect [OF st] obtain blk where
    ext1: "only_adds_dirs (fs w) (fs w1)" and tr1: "trace w1 = trace w @ blk"
    and blk: "(\<exists>m. blk = [EvStat ?p (Some m)] \<and> rc1 = (if S_ISDIR m then SQLITE_OK else SQLITE_ERROR))
              \<or> (\<exists>r. blk = [EvStat ?p None, EvMkdir ?p 0x1FF r]
                     \<and> rc1 = (if r = 0 then SQLITE_OK else SQLITE_ERROR))"
    by blast
  have rc1: "rc1 = SQLITE_OK \<or> rc1 = SQLITE_ERROR"
    using blk by auto
  have sp: "stat_paths blk = [?p]"
    using blk by auto
  have pl: "\<And>evs. probe_log (blk @ evs) = probe_log evs"
    using blk by auto
  have bad: "\<And>q m. EvStat q (Some m) \<in> set blk \<Longrightarrow> \<not> S_ISDIR m \<Longrightarrow> rc1 = SQLITE_ERROR"
    using blk by auto
  have mk: "\<And>q m r. EvMkdir q m r \<in> set blk \<Longrightarrow> q = ?p"
    using blk by auto
  from rest show ?thesis
  proof (elim disjE conjE)
    assume stop: "rc1 \<noteq> SQLITE_OK" "rc = rc1" "w' = w1"
    have "stat_paths blk = take 1 (prefixes_from z i)"
      using sp pf by simp
    then have k: "\<exists>k. stat_paths blk = take k (prefixes_from z i)"
      by blast
    have "probe_log blk"
      using pl [of "[]"] by simp
    with stop rc1 ext1 tr1 k bad mk pf show ?thesis
      unfolding mpd_post_def
      by (intro conjI exI [of _ blk]) auto
  next
    assume go: "rc1 = SQLITE_OK" "mpd_post z (?j + 1) w1 rc w'"
    from go(2) obtain evs k where
      ext2: "only_adds_dirs (fs w1) (fs w')" and rc: "rc = SQLITE_OK \<or> rc = SQLITE_ERROR"
      and tr2: "trace w' = trace w1 @ evs" and pl2: "probe_log evs"
      and k: "stat_paths evs = take k (prefixes_from z (?j + 1))"
      and all: "rc = SQLITE_OK \<longrightarrow> stat_paths evs = prefixes_from z (?j + 1)"
      and bad2: "\<forall>p m. EvStat p (Some m) \<in> set evs \<and> \<not> S_ISDIR m \<longrightarrow> rc = SQLITE_ERROR"
      and mk2: "\<forall>p m r. EvMkdir p m r \<in> set evs \<longrightarrow> p \<in> set (prefixes_from z (?j + 1))"
      unfolding mpd_post_def by blast
    have ext: "only_adds_dirs (fs w) (fs w')"
      using ext1 ext2 by (rule only_adds_dirs_trans)
    have tr: "trace w' = trace w @ (blk @ evs)"
      using tr1 tr2 by simp
    have "stat_paths (blk @ evs) = take (Suc k) (prefixes_from z i)"
      using sp k pf by simp
    then have kk: "\<exists>k. stat_paths (blk @ evs) = take k (prefixes_from z i)"
      by blast
    have all': "rc = SQLITE_OK \<longrightarrow> stat_paths (blk @ evs) = prefixes_from z i"
      using all sp pf by simp
    have bad': "\<forall>p m. EvStat p (Some m) \<in> set (blk @ evs) \<and> \<not> S_ISDIR m \<longrightarrow> rc = SQLITE_ERROR"
      using bad bad2 go(1) by (auto simp: SQLITE_OK_def SQLITE_ERROR_def)
    have mk': "\<forall>p m r. EvMkdir p m r \<in> set (blk @ evs) \<longrightarrow> p \<in> set (prefixes_from z i)"
      using mk mk2 pf by auto
    from ext rc tr pl pl2 kk all' bad' mk' show ?thesis
      unfolding mpd_post_def
      by (intro conjI exI [of _ "blk @ evs"]) simp_all
  qed
qed

lemma mpd_loop_stop: "rc \<noteq> SQLITE_OK \<Longrightarrow> mpd_loop z i rc w = (rc, w)"
  by (subst mpd_loop.simps) simp

lemma mpd_loop_post:
  "rc0 = SQLITE_OK \<Longrightarrow> i \<le> length z \<Longrightarrow> mpd_loop z i rc0 w = (rc, w')
   \<Longrightarrow> mpd_post z i w rc w'"
proof (induction z i rc0 w arbitrary: rc w' rule: mpd_loop.induct)
  case (1 zCopy i rc0 w)
  let ?j = "scan_slash zCopy i"
  note b = scan_slash_bounds [OF "1.prems"(2)]
  show ?case
  proof (cases "?j = length zCopy")
    case True
    with "1.prems" have "rc = SQLITE_OK" "w' = w"
      by (simp_all add: mpd_loop.simps [of zCopy i])
    with True "1.prems"(2) show ?thesis
      by (simp add: mpd_post_done)
  next
    case False
    with b(2) have lt: "?j < length zCopy" by simp
    obtain rc1 w1 where st: "mpd_step zCopy ?j w = (rc1, w1)"
      by (cases "mpd_step zCopy ?j w")
    from "1.prems" False st lt
    have next_eq: "mpd_loop zCopy (?j + 1) rc1 w1 = (rc, w')"
      by (simp add: mpd_loop.simps [of zCopy i])
    show ?thesis
    proof (cases "rc1 = SQLITE_OK")
      case True
      have "mpd_post zCopy (?j + 1) w1 rc w'"
        using "1.IH" [OF _ refl False st [symmetric] _ True _ next_eq] "1.prems"(1) lt
        by simp
      with True show ?thesis
        using mpd_post_step [OF "1.prems"(2) False st] by blast
    next
      case stop: False
      with next_eq have "rc = rc1" "w' = w1"
        by (simp_all add: mpd_loop_stop)
      with stop show ?thesis
        using mpd_post_step [OF "1.prems"(2) False st] by blast
    qed
  qed
qed


lemma c_stat_empty: "fst (c_stat [] w) = None"
  by (simp add: c_stat_def lookup_def resolve_def split: option.splits)

lemma mpd_loop_empty:
  assumes "mpd_loop [] 1 SQLITE_OK w = (rc, w')"
  shows "rc = SQLITE_ERROR \<and> only_adds_dirs (fs w) (fs w')
         \<and> trace w' = trace w @ [EvStat [] None, EvMkdir [] 0x1FF (- 1)]"
proof -
  obtain x w1 where st: "c_stat [] w = (x, w1)"
    by (cases "c_stat [] w")
  with c_stat_empty [of w] have x: "x = None"
    by simp
  obtain r w2 where mk: "c_mkdir [] 0x1FF w1 = (r, w2)"
    by (cases "c_mkdir [] 0x1FF w1")
  with c_mkdir_empty [of "0x1FF" w1] have r: "r = - 1"
    by simp
  have step: "mpd_step [] 1 w = (SQLITE_ERROR, w2)"
    by (simp add: mpd_step_def fileStat_def st x mk r)
  have "mpd_loop [] 1 SQLITE_OK w = (SQLITE_ERROR, w2)"
    using step by (subst mpd_loop.simps) (simp add: scan_slash_def)
  with assms have eq: "rc = SQLITE_ERROR" "w' = w2"
    by simp_all
  from c_stat_effect [OF st] c_mkdir_effect [OF mk] show ?thesis
    unfolding eq x r
    by (auto simp: only_adds_dirs_def)
qed

lemma not_in_prefixes_from: "z \<notin> set (prefixes_from z i)"
proof
  assume "z \<in> set (prefixes_from z i)"
  then obtain k where "k < length z" "z = take k z"
    by (auto simp: prefixes_from_def)
  then have "length z = length (take k z)" "k < length z"
    by simp_all
  then show False
    by simp
qed

text \<open>
  C7. \<open>makeParentDirectory\<close> leaves every existing entry of the namespace as it is, and every
  entry it adds is a directory. Between the copy of the path and its release, its library calls
  are probes only: a \<open>stat\<close> that succeeds, or a \<open>stat\<close> that fails followed by \<open>mkdir\<close> of the same
  path. For a path that is not empty the probed paths are the ancestor prefixes, left to right,
  up to the first failure, and all of them when the result is \<open>SQLITE_OK\<close>. Every directory made
  is an ancestor prefix, and the path itself is not one, so the last component is never made. A
  prefix that exists and is not a directory gives \<open>SQLITE_ERROR\<close>.
\<close>

theorem makeParentDirectory_only_creates:
  assumes "makeParentDirectory zFile w = (rc, w')"
  shows "(\<forall>q n. fs w q = Some n \<longrightarrow> fs w' q = Some n)
     \<and> (\<forall>q n. fs w q = None \<and> fs w' q = Some n \<longrightarrow> (\<exists>m. n = Dir m))
     \<and> (rc = SQLITE_OK \<or> rc = SQLITE_ERROR \<or> rc = SQLITE_NOMEM)
     \<and> (\<exists>probes.
           trace w' = trace w @ (if rc = SQLITE_NOMEM then [EvMprintf zFile False]
                                else EvMprintf zFile True # probes @ [EvFree])
           \<and> probe_log probes
           \<and> (zFile \<noteq> [] \<longrightarrow> (\<exists>k. stat_paths probes = take k (slash_prefixes zFile)))
           \<and> (zFile \<noteq> [] \<and> rc = SQLITE_OK \<longrightarrow> stat_paths probes = slash_prefixes zFile)
           \<and> (\<forall>p m. EvMkdir p m 0 \<in> set probes \<longrightarrow> p \<in> set (slash_prefixes zFile))
           \<and> (\<forall>p m. EvStat p (Some m) \<in> set probes \<and> \<not> S_ISDIR m \<longrightarrow> rc = SQLITE_ERROR))
     \<and> zFile \<notin> set (slash_prefixes zFile)"
proof -
  have notin: "zFile \<notin> set (slash_prefixes zFile)"
    by (simp add: slash_prefixes_def not_in_prefixes_from)
  have codes: "SQLITE_OK \<noteq> SQLITE_NOMEM" "SQLITE_ERROR \<noteq> SQLITE_NOMEM"
    by (simp_all add: SQLITE_OK_def SQLITE_ERROR_def SQLITE_NOMEM_def)
  show ?thesis
  proof (cases "malloc_fails w (length zFile + 1)")
    case True
    with assms have "rc = SQLITE_NOMEM" "w' = log_event (EvMprintf zFile False) w"
      by (simp_all add: makeParentDirectory_def sqlite3_mprintf_def)
    then have "fs w' = fs w" "trace w' = trace w @ [EvMprintf zFile False]" "rc = SQLITE_NOMEM"
      by (simp_all add: log_event_def)
    with notin codes show ?thesis
      by (intro conjI exI [of _ "[]"]) auto
  next
    case False
    define w1 where "w1 = log_event (EvMprintf zFile True) w"
    obtain rc2 w2 where loop: "mpd_loop zFile 1 SQLITE_OK w1 = (rc2, w2)"
      by (cases "mpd_loop zFile 1 SQLITE_OK w1")
    from assms False loop have res: "rc = rc2" "w' = sqlite3_free w2"
      by (simp_all add: makeParentDirectory_def sqlite3_mprintf_def w1_def)
    have w1: "fs w1 = fs w" "trace w1 = trace w @ [EvMprintf zFile True]"
      by (simp_all add: w1_def log_event_def)
    have w': "fs w' = fs w2" "trace w' = trace w2 @ [EvFree]"
      by (simp_all add: res sqlite3_free_def log_event_def)
    show ?thesis
    proof (cases "zFile = []")
      case True
      from mpd_loop_empty [OF loop [unfolded True]]
      have e: "rc2 = SQLITE_ERROR" "only_adds_dirs (fs w1) (fs w2)"
        "trace w2 = trace w1 @ [EvStat [] None, EvMkdir [] 0x1FF (- 1)]"
        by simp_all
      from e(2) w1(1) w'(1) have mono: "(\<forall>q n. fs w q = Some n \<longrightarrow> fs w' q = Some n)
          \<and> (\<forall>q n. fs w q = None \<and> fs w' q = Some n \<longrightarrow> (\<exists>m. n = Dir m))"
        by (simp add: only_adds_dirs_def)
      have tr: "trace w' = trace w @ (if rc = SQLITE_NOMEM then [EvMprintf zFile False]
                  else EvMprintf zFile True # [EvStat [] None, EvMkdir [] 0x1FF (- 1)] @ [EvFree])"
        using e(1,3) w1(2) w'(2) res(1) codes by simp
      from mono tr True e(1) res(1) notin show ?thesis
        by (intro conjI exI [of _ "[EvStat [] None, EvMkdir [] 0x1FF (- 1)]"]) auto
    next
      case False
      then have "1 \<le> length zFile"
        by (cases zFile) simp_all
      from mpd_loop_post [OF refl this loop] obtain evs where
        ext: "only_adds_dirs (fs w1) (fs w2)" and rc2: "rc2 = SQLITE_OK \<or> rc2 = SQLITE_ERROR"
        and tr2: "trace w2 = trace w1 @ evs" and pl: "probe_log evs"
        and k: "\<exists>k. stat_paths evs = take k (prefixes_from zFile 1)"
        and all: "rc2 = SQLITE_OK \<longrightarrow> stat_paths evs = prefixes_from zFile 1"
        and bad: "\<forall>p m. EvStat p (Some m) \<in> set evs \<and> \<not> S_ISDIR m \<longrightarrow> rc2 = SQLITE_ERROR"
        and mk: "\<forall>p m r. EvMkdir p m r \<in> set evs \<longrightarrow> p \<in> set (prefixes_from zFile 1)"
        unfolding mpd_post_def by blast
      from ext w1(1) w'(1) have mono: "(\<forall>q n. fs w q = Some n \<longrightarrow> fs w' q = Some n)
          \<and> (\<forall>q n. fs w q = None \<and> fs w' q = Some n \<longrightarrow> (\<exists>m. n = Dir m))"
        by (simp add: only_adds_dirs_def)
      have tr: "trace w' = trace w @ (if rc = SQLITE_NOMEM then [EvMprintf zFile False]
                  else EvMprintf zFile True # evs @ [EvFree])"
        using rc2 tr2 w1(2) w'(2) res(1) codes by auto
      from mono tr rc2 res(1) pl k all bad mk notin show ?thesis
        unfolding slash_prefixes_def
        by (intro conjI exI [of _ evs]) auto
    qed
  qed
qed

theorem makeParentDirectory_only_creates_witness:
  "makeParentDirectory ''/tmp/a/b/c.txt'' world0
     = (SQLITE_OK, snd (makeParentDirectory ''/tmp/a/b/c.txt'' world0))
   \<and> fs world0 [''tmp'', ''f.txt''] = Some (Reg 0x1A4 [0x61, 0x62, 0x63] 900)
   \<and> fs (snd (makeParentDirectory ''/tmp/a/b/c.txt'' world0)) [''tmp'', ''f.txt'']
       = Some (Reg 0x1A4 [0x61, 0x62, 0x63] 900)
   \<and> fs (snd (makeParentDirectory ''/tmp/a/b/c.txt'' world0)) [''tmp'', ''a'', ''b'']
       = Some (Dir 0x1ED)
   \<and> fs (snd (makeParentDirectory ''/tmp/a/b/c.txt'' world0)) [''tmp'', ''a'', ''b'', ''c.txt'']
       = None
   \<and> slash_prefixes ''/tmp/a/b/c.txt'' = [''/tmp'', ''/tmp/a'', ''/tmp/a/b'']"
proof -
  let ?P = "''/tmp/a/b/c.txt''"
  have rc: "fst (makeParentDirectory ?P world0) = SQLITE_OK"
    by code_simp
  have eq: "makeParentDirectory ?P world0 = (SQLITE_OK, snd (makeParentDirectory ?P world0))"
    using rc by (metis prod.collapse)
  have f: "fs world0 [''tmp'', ''f.txt''] = Some (Reg 0x1A4 [0x61, 0x62, 0x63] 900)"
    by (simp add: world0_def)
  from makeParentDirectory_only_creates [OF eq] f
  have kept: "fs (snd (makeParentDirectory ?P world0)) [''tmp'', ''f.txt'']
       = Some (Reg 0x1A4 [0x61, 0x62, 0x63] 900)"
    by blast
  have made: "fs (snd (makeParentDirectory ?P world0)) [''tmp'', ''a'', ''b''] = Some (Dir 0x1ED)"
    by code_simp
  have last: "fs (snd (makeParentDirectory ?P world0)) [''tmp'', ''a'', ''b'', ''c.txt''] = None"
    by code_simp
  have pre: "slash_prefixes ?P = [''/tmp'', ''/tmp/a'', ''/tmp/a/b'']"
    by code_simp
  from eq f kept made last pre show ?thesis
    by blast
qed


section \<open>Path resolution is stable under the changes the code makes\<close>

lemma wc_dir: "walk_compatible f f' \<Longrightarrow> f q = Some (Dir m) \<Longrightarrow> \<exists>m'. f' q = Some (Dir m')"
  unfolding walk_compatible_def by (drule spec [of _ q]) simp

lemma wc_lnk: "walk_compatible f f' \<Longrightarrow> f q = Some (Lnk t) \<Longrightarrow> f' q = Some (Lnk t)"
  unfolding walk_compatible_def by (drule spec [of _ q]) simp

lemma wc_not_lnk:
  "walk_compatible f f' \<Longrightarrow> \<forall>t. f q \<noteq> Some (Lnk t) \<Longrightarrow> f' q \<noteq> Some (Lnk t)"
  unfolding walk_compatible_def
  by (drule spec [of _ q]) (auto split: option.splits inode.splits)

lemma walk_stable:
  "walk fuel f follow cur cs = Inr r \<Longrightarrow> walk_compatible f f'
   \<Longrightarrow> walk fuel f' follow cur cs = Inr r"
proof (induction fuel f follow cur cs rule: walk.induct)
  case (1 fuel f follow cur)
  then show ?case by simp
next
  case (2 fuel f follow cur c cs)
  from "2.prems"(1) obtain p where dir: "f cur = Some (Dir p)"
    by (auto split: option.splits inode.splits)
  from wc_dir [OF "2.prems"(2) dir] obtain p' where dir': "f' cur = Some (Dir p')"
    by blast
  show ?case
  proof (cases "c = [] \<or> c = ''.''")
    case True
    with "2.prems" dir dir' "2.IH"(1) [OF dir refl True] show ?thesis
      by auto
  next
    case nodot: False
    show ?thesis
    proof (cases "c = ''..''")
      case True
      with "2.prems" dir dir' nodot "2.IH"(2) [OF dir refl nodot True] show ?thesis
        by auto
    next
      case noup: False
      show ?thesis
      proof (cases "\<exists>t. f (cur @ [c]) = Some (Lnk t)")
        case True
        then obtain t where lnk: "f (cur @ [c]) = Some (Lnk t)"
          by blast
        from wc_lnk [OF "2.prems"(2) lnk] have lnk': "f' (cur @ [c]) = Some (Lnk t)" .
        show ?thesis
        proof (cases "cs = [] \<and> \<not> follow")
          case True
          with "2.prems" dir dir' nodot noup lnk lnk' show ?thesis
            by auto
        next
          case fol: False
          show ?thesis
          proof (cases fuel)
            case 0
            with "2.prems" dir nodot noup lnk fol show ?thesis
              by auto
          next
            case (Suc k)
            show ?thesis
            proof (cases "t = []")
              case True
              with "2.prems" dir nodot noup lnk fol Suc show ?thesis
                by auto
            next
              case False
              from "2.prems"(1) dir nodot noup lnk fol Suc False
              have "walk k f follow (if hd t = CHR ''/'' then [] else cur) (split_path t @ cs) = Inr r"
                by auto
              from "2.IH"(6) [OF dir refl nodot noup lnk refl fol Suc False this "2.prems"(2)]
              show ?thesis
                using dir' nodot noup lnk' fol Suc False by auto
            qed
          qed
        qed
      next
        case nolnk: False
        then have nl: "\<forall>t. f (cur @ [c]) \<noteq> Some (Lnk t)"
          by blast
        from wc_not_lnk [OF "2.prems"(2) nl] have nl': "\<And>t. f' (cur @ [c]) \<noteq> Some (Lnk t)" .
        from "2.prems"(1) dir nodot noup nl
        have w: "walk fuel f follow (cur @ [c]) cs = Inr r"
          by (auto split: option.splits inode.splits)
        have ih: "walk fuel f' follow (cur @ [c]) cs = Inr r"
        proof (cases "f (cur @ [c])")
          case None
          from "2.IH"(3) [OF dir refl nodot noup None w "2.prems"(2)] show ?thesis .
        next
          case (Some n)
          show ?thesis
          proof (cases n)
            case (Reg x1 x2 x3)
            from "2.IH"(4) [OF dir refl nodot noup Some Reg w "2.prems"(2)] show ?thesis .
          next
            case (Dir x)
            from "2.IH"(5) [OF dir refl nodot noup Some Dir w "2.prems"(2)] show ?thesis .
          next
            case (Lnk x)
            with Some nl show ?thesis by simp
          qed
        qed
        with dir' nodot noup nl' show ?thesis
          by (auto split: option.splits inode.splits)
      qed
    qed
  qed
qed

lemma walk_compatible_refl: "walk_compatible f f"
  by (auto simp: walk_compatible_def split: option.splits inode.splits)

lemma walk_compatible_trans:
  assumes "walk_compatible f g" "walk_compatible g h"
  shows "walk_compatible f h"
  unfolding walk_compatible_def
proof
  fix q
  from assms have a: "case f q of Some (Dir m) \<Rightarrow> (\<exists>m'. g q = Some (Dir m'))
          | Some (Lnk t) \<Rightarrow> g q = Some (Lnk t) | _ \<Rightarrow> (\<forall>t. g q \<noteq> Some (Lnk t))"
    and b: "case g q of Some (Dir m) \<Rightarrow> (\<exists>m'. h q = Some (Dir m'))
          | Some (Lnk t) \<Rightarrow> h q = Some (Lnk t) | _ \<Rightarrow> (\<forall>t. h q \<noteq> Some (Lnk t))"
    unfolding walk_compatible_def by blast+
  from a b show "case f q of Some (Dir m) \<Rightarrow> (\<exists>m'. h q = Some (Dir m'))
          | Some (Lnk t) \<Rightarrow> h q = Some (Lnk t) | _ \<Rightarrow> (\<forall>t. h q \<noteq> Some (Lnk t))"
    by (auto split: option.splits inode.splits)
qed

lemma walk_compatible_upd:
  assumes "case f c of Some (Dir m) \<Rightarrow> (\<exists>m'. n = Dir m') | Some (Lnk t) \<Rightarrow> n = Lnk t
           | _ \<Rightarrow> (\<forall>t. n \<noteq> Lnk t)"
  shows "walk_compatible f (f(c \<mapsto> n))"
  using assms
  by (auto simp: walk_compatible_def split: option.splits inode.splits)

lemma same_env_refl [simp]: "same_env w w"
  by (simp add: same_env_def)

lemma same_env_trans: "same_env a b \<Longrightarrow> same_env b c \<Longrightarrow> same_env a c"
  by (simp add: same_env_def)

lemma same_env_log [simp]: "same_env w (log_event ev w') = same_env w w'"
  by (simp add: same_env_def log_event_def)

lemma same_env_errno [simp]: "same_env w (set_errno e w') = same_env w w'"
  by (simp add: same_env_def set_errno_def)

lemma same_env_fs [simp]: "same_env w (w'\<lparr>fs := f\<rparr>) = same_env w w'"
  by (simp add: same_env_def)

lemma resolve_stable:
  assumes "resolve follow path w = Inr r" "walk_compatible (fs w) (fs w')" "cwd w' = cwd w"
  shows "resolve follow path w' = Inr r"
  using assms walk_stable [of 40 "fs w" follow _ "split_path path" r "fs w'"]
  by (auto simp: resolve_def split: if_splits)

lemma lookup_Inr:
  "lookup path w = Inr (c, n) \<longleftrightarrow>
     resolve True path w = Inr c \<and> fs w c = Some n \<and> (\<forall>t. n \<noteq> Lnk t)"
  by (auto simp: lookup_def split: sum.splits option.splits inode.splits)

lemma errno_of_fault_not_ENOENT [simp]:
  "errno_of_fault x \<noteq> ENOENT" "ENOENT \<noteq> errno_of_fault x"
  by (cases x; simp)+

text \<open>Effects of the library calls.\<close>

lemma c_fopen_wb_None:
  assumes "c_fopen zFile ''wb'' w = (None, w1)"
  shows "fs w1 = fs w \<and> same_env w w1 \<and> trace w1 = trace w @ [EvFopen zFile ''wb'' False]"
  using assms
  by (auto simp: c_fopen_def log_event_def set_errno_def same_env_def
           split: option.splits sum.splits prod.splits if_splits)

lemma c_fopen_wb_Some:
  assumes "c_fopen zFile ''wb'' w = (Some out, w1)"
  shows "resolve True zFile w = Inr out
         \<and> (\<exists>p. fs w1 = (fs w)(out \<mapsto> Reg p [] (clock w)))
         \<and> (fs w out = None \<or> (\<exists>p d t. fs w out = Some (Reg p d t)))
         \<and> same_env w w1 \<and> errno w1 = errno w
         \<and> trace w1 = trace w @ [EvFopen zFile ''wb'' True]"
  using assms
  unfolding c_fopen_def
  by (auto simp: log_event_def set_errno_def same_env_def
           split: option.splits sum.splits prod.splits if_splits inode.splits)

lemma c_fwrite_effect:
  assumes "c_fwrite buf n out w = (k, w')" "fs w out = Some (Reg p d t)"
  shows "fs w' = (fs w)(out \<mapsto> Reg p (d @ take k buf) (clock w))
         \<and> k = (case fwrite_limit w out of None \<Rightarrow> n | Some l \<Rightarrow> min l n)
         \<and> same_env w w' \<and> trace w' = trace w @ [EvFwrite out n k]"
  using assms
  by (auto simp: c_fwrite_def Let_def log_event_def set_errno_def same_env_def
           split: option.splits if_splits)

lemma c_fclose_effect:
  "fs (c_fclose out w) = fs w \<and> same_env w (c_fclose out w)
   \<and> errno (c_fclose out w) = errno w
   \<and> trace (c_fclose out w) = trace w @ [EvFclose out]"
  by (simp add: c_fclose_def log_event_def same_env_def)

lemma c_chmod_effect:
  assumes "c_chmod path m w = (r, w')"
  shows "same_env w w' \<and> trace w' = trace w @ [EvChmod path m r] \<and> (r = 0 \<or> r = - 1)
         \<and> (r \<noteq> 0 \<longrightarrow> fs w' = fs w
               \<and> (fault w SYS_chmod path \<noteq> None \<or> (\<exists>e. lookup path w = Inl e)))
         \<and> (r = 0 \<longrightarrow> fault w SYS_chmod path = None \<and> errno w' = errno w
               \<and> (\<exists>c n. lookup path w = Inr (c, n)
                     \<and> fs w' = (fs w)(c \<mapsto> (case n of Reg p d t \<Rightarrow> Reg (m AND 0xFFF) d t
                                               | Dir p \<Rightarrow> Dir (m AND 0xFFF) | Lnk t \<Rightarrow> Lnk t))))"
  using assms
  unfolding c_chmod_def
  by (auto simp: log_event_def set_errno_def same_env_def
           split: option.splits sum.splits prod.splits)

lemma c_utimes_effect:
  assumes "c_utimes path a mt w = (r, w')"
  shows "same_env w w' \<and> trace w' = trace w @ [EvUtimes path mt r] \<and> (r = 0 \<or> r = - 1)
         \<and> (r \<noteq> 0 \<longrightarrow> fs w' = fs w
               \<and> ((\<exists>x. fault w SYS_utimes path = Some x \<and> errno w' = errno_of_fault x)
                   \<or> (\<exists>e. lookup path w = Inl e \<and> errno w' = e)))
         \<and> (r = 0 \<longrightarrow> fault w SYS_utimes path = None \<and> errno w' = errno w
               \<and> (\<exists>c n. lookup path w = Inr (c, n)
                     \<and> fs w' = (fs w)(c \<mapsto> (case n of Reg p d t \<Rightarrow> Reg p d mt
                                               | Dir p \<Rightarrow> Dir p | Lnk t \<Rightarrow> Lnk t))))"
  using assms
  unfolding c_utimes_def
  by (auto simp: log_event_def set_errno_def same_env_def
           split: option.splits sum.splits prod.splits)

lemma file_at_compatible:
  assumes "file_at zFile out w d w'"
  shows "walk_compatible (fs w) (fs w')"
  unfolding walk_compatible_def
proof
  fix q
  show "case fs w q of Some (Dir m) \<Rightarrow> (\<exists>m'. fs w' q = Some (Dir m'))
        | Some (Lnk t) \<Rightarrow> fs w' q = Some (Lnk t) | _ \<Rightarrow> (\<forall>t. fs w' q \<noteq> Some (Lnk t))"
    using assms unfolding file_at_def
    by (cases "q = out") (auto split: option.splits inode.splits)
qed

lemma file_at_lookup:
  assumes "file_at zFile out w d w'"
  shows "\<exists>p t. lookup zFile w' = Inr (out, Reg p d t)"
  using assms unfolding file_at_def lookup_Inr by auto

lemma file_at_open:
  assumes "c_fopen zFile ''wb'' w = (Some out, w1)"
  shows "file_at zFile out w [] w1"
proof -
  from c_fopen_wb_Some [OF assms] obtain p where
    r: "resolve True zFile w = Inr out" and f: "fs w1 = (fs w)(out \<mapsto> Reg p [] (clock w))"
    and old: "fs w out = None \<or> (\<exists>p d t. fs w out = Some (Reg p d t))"
    and env: "same_env w w1"
    by blast
  have "walk_compatible (fs w) (fs w1)"
    unfolding f using old by (intro walk_compatible_upd) auto
  with r env have "resolve True zFile w1 = Inr out"
    by (intro resolve_stable [of True zFile w out w1]) (simp_all add: same_env_def)
  with f old env show ?thesis
    by (auto simp: file_at_def)
qed

lemma file_at_step:
  assumes a: "file_at zFile out w d w1"
    and env: "same_env w1 w2"
    and f: "fs w2 = (fs w1)(out \<mapsto> Reg p' d' t')"
  shows "file_at zFile out w d' w2"
proof -
  from a obtain p t where r: "resolve True zFile w1 = Inr out" and o: "fs w1 out = Some (Reg p d t)"
    unfolding file_at_def by blast
  have "walk_compatible (fs w1) (fs w2)"
    unfolding f using o by (intro walk_compatible_upd) auto
  with r env have "resolve True zFile w2 = Inr out"
    by (intro resolve_stable [of True zFile w1 out w2]) (simp_all add: same_env_def)
  with a env f show ?thesis
    unfolding file_at_def by (auto intro: same_env_trans)
qed

lemma file_at_same_fs:
  assumes "file_at zFile out w d w1" "same_env w1 w2" "fs w2 = fs w1"
  shows "file_at zFile out w d w2"
  using assms unfolding file_at_def resolve_def same_env_def by auto

lemma file_at_fwrite:
  assumes a: "file_at zFile out w [] w1" and fw: "c_fwrite z n out w1 = (k, w2)"
  shows "file_at zFile out w (take k z) w2"
proof -
  from a obtain p t where o: "fs w1 out = Some (Reg p [] t)"
    unfolding file_at_def by blast
  from c_fwrite_effect [OF fw o] file_at_step [OF a] show ?thesis
    by auto
qed

lemma file_at_chmod:
  assumes a: "file_at zFile out w d w1" and ch: "c_chmod zFile m w1 = (r, w2)"
  shows "file_at zFile out w d w2"
proof -
  from file_at_lookup [OF a] obtain p t where l: "lookup zFile w1 = Inr (out, Reg p d t)"
    by blast
  note e = c_chmod_effect [OF ch]
  show ?thesis
  proof (cases "r = 0")
    case True
    with e l have "fs w2 = (fs w1)(out \<mapsto> Reg (m AND 0xFFF) d t)" "same_env w1 w2"
      by auto
    with file_at_step [OF a] show ?thesis
      by blast
  next
    case False
    with e have "fs w2 = fs w1" "same_env w1 w2"
      by auto
    with file_at_same_fs [OF a] show ?thesis
      by blast
  qed
qed

lemma file_at_utimes:
  assumes a: "file_at zFile out w d w1" and ut: "c_utimes zFile at mt w1 = (r, w2)"
  shows "file_at zFile out w d w2 \<and> (r \<noteq> 0 \<longrightarrow> errno w2 \<noteq> ENOENT)"
proof -
  from file_at_lookup [OF a] obtain p t where l: "lookup zFile w1 = Inr (out, Reg p d t)"
    by blast
  note e = c_utimes_effect [OF ut]
  show ?thesis
  proof (cases "r = 0")
    case True
    with e l have "fs w2 = (fs w1)(out \<mapsto> Reg p d mt)" "same_env w1 w2"
      by auto
    with file_at_step [OF a] True show ?thesis
      by blast
  next
    case False
    with e l have "fs w2 = fs w1" "same_env w1 w2" "errno w2 \<noteq> ENOENT"
      by auto
    with file_at_same_fs [OF a] show ?thesis
      by blast
  qed
qed

lemma value_blob_Some_bytes: "sqlite3_value_blob v = Some z \<Longrightarrow> sqlite3_value_bytes v = length z"
  by (cases v) (auto simp: bytes_of_def split: if_splits)


lemma writeFile_open_fails:
  "c_fopen zFile ''wb'' w = (None, w1) \<Longrightarrow> writeFile ctx zFile pData mode mtime w = (1, ctx, w1)"
  by (simp add: writeFile_def)

lemma writeFile_opened:
  assumes op: "c_fopen zFile ''wb'' w = (Some out, w1)"
    and wf: "writeFile ctx zFile pData mode mtime w = (res, c', w')"
  shows "\<exists>d. file_at zFile out w d w' \<and> (res = 0 \<longrightarrow> d = blob_bytes pData)
             \<and> (res = 1 \<longrightarrow> errno w' \<noteq> ENOENT) \<and> (res = 0 \<or> res = 1 \<or> res = 2)"
proof -
  let ?n = "sqlite3_value_bytes pData"
  define s1 where "s1 = (case sqlite3_value_blob pData of
                   None \<Rightarrow> (0, 0 :: int, w1)
                 | Some z \<Rightarrow>
                     (case c_fwrite z ?n out w1 of
                        (n, w2) \<Rightarrow> (?n, if ?n \<noteq> n then 1 else 0, w2)))"
  obtain nWrite rc2 w2 where s1_eq: "s1 = (nWrite, rc2, w2)"
    by (cases s1)
  define s2 where "s2 = (let w3 = c_fclose out w2
                      in if rc2 = 0 \<and> mode \<noteq> 0 then
                           (case c_chmod zFile mode w3 of
                              (r, w4) \<Rightarrow> (if r \<noteq> 0 then 1 else rc2, w4))
                         else (rc2, w3))"
  obtain rc4 w4 where s2_eq: "s2 = (rc4, w4)"
    by (cases s2)
  have wf': "(res, c', w') =
      (if rc4 \<noteq> 0 then (2, ctx, w4)
       else let pCtx1 = sqlite3_result_int64 ctx (int nWrite)
            in if mtime \<ge> 0 then
                 (case c_utimes zFile (clock w4) mtime w4 of
                    (r, w5) \<Rightarrow> if r \<noteq> 0 then (1, pCtx1, w5) else (0, pCtx1, w5))
               else (0, pCtx1, w4))"
    using wf unfolding writeFile_def op prod.case option.case
      s1_def [symmetric] s1_eq s2_def [symmetric] s2_eq
    by simp
  note a1 = file_at_open [OF op]
  \<comment> \<open>the write\<close>
  have "\<exists>d. file_at zFile out w d w2 \<and> (rc2 = 0 \<longrightarrow> d = blob_bytes pData)"
  proof (cases "sqlite3_value_blob pData")
    case None
    with s1_eq have "w2 = w1" "rc2 = 0"
      by (simp_all add: s1_def)
    with a1 None show ?thesis
      by (auto simp: blob_bytes_def)
  next
    case (Some z)
    obtain k wa where fw: "c_fwrite z ?n out w1 = (k, wa)"
      by (cases "c_fwrite z ?n out w1")
    with s1_eq Some have e: "w2 = wa" "rc2 = (if ?n \<noteq> k then 1 else 0)"
      by (auto simp: s1_def)
    from file_at_fwrite [OF a1 fw] have fa: "file_at zFile out w (take k z) w2"
      by (simp add: e)
    have "rc2 = 0 \<longrightarrow> take k z = blob_bytes pData"
      using e(2) value_blob_Some_bytes [OF Some] Some
      by (auto simp: blob_bytes_def split: if_splits)
    with fa show ?thesis
      by blast
  qed
  then obtain d where a2: "file_at zFile out w d w2" and d2: "rc2 = 0 \<longrightarrow> d = blob_bytes pData"
    by blast
  \<comment> \<open>the close and the chmod\<close>
  have a3: "file_at zFile out w d (c_fclose out w2)"
    using file_at_same_fs [OF a2] c_fclose_effect [of out w2] by blast
  have a4: "file_at zFile out w d w4 \<and> (rc4 = 0 \<longrightarrow> rc2 = 0)"
  proof (cases "rc2 = 0 \<and> mode \<noteq> 0")
    case True
    obtain r wb where ch: "c_chmod zFile mode (c_fclose out w2) = (r, wb)"
      by (cases "c_chmod zFile mode (c_fclose out w2)")
    with s2_eq True have "w4 = wb" "rc4 = (if r \<noteq> 0 then 1 else rc2)"
      by (simp_all add: s2_def Let_def)
    with file_at_chmod [OF a3 ch] show ?thesis
      by (auto split: if_splits)
  next
    case False
    with s2_eq have "w4 = c_fclose out w2" "rc4 = rc2"
      by (auto simp: s2_def Let_def)
    with a3 show ?thesis
      by simp
  qed
  \<comment> \<open>the result and the time stamp\<close>
  show ?thesis
  proof (cases "rc4 \<noteq> 0")
    case True
    with wf' have "res = 2" "w' = w4"
      by simp_all
    with a4 show ?thesis
      by auto
  next
    case ok: False
    show ?thesis
    proof (cases "mtime \<ge> 0")
      case True
      obtain r w5 where ut: "c_utimes zFile (clock w4) mtime w4 = (r, w5)"
        by (cases "c_utimes zFile (clock w4) mtime w4")
      with wf' ok True have e: "w' = w5" "res = (if r \<noteq> 0 then 1 else 0)"
        by (simp_all add: Let_def split: if_splits)
      from a4 have fa: "file_at zFile out w d w4" ..
      from file_at_utimes [OF fa ut] e a4 d2 ok show ?thesis
        by (auto split: if_splits)
    next
      case False
      with wf' ok have "w' = w4" "res = 0"
        by (simp_all add: Let_def)
      with a4 d2 ok show ?thesis
        by auto
    qed
  qed
qed


lemma c_fopen_trace:
  "c_fopen p m w = (x, w') \<Longrightarrow> trace w' = trace w @ [EvFopen p m (x \<noteq> None)]"
  unfolding c_fopen_def
  by (auto simp: log_event_def set_errno_def split: option.splits sum.splits prod.splits if_splits)

lemma c_fwrite_trace:
  "c_fwrite b n out w = (k, w') \<Longrightarrow> trace w' = trace w @ [EvFwrite out n k]"
  by (auto simp: c_fwrite_def Let_def log_event_def set_errno_def
           split: option.splits inode.splits if_splits)

lemma c_chmod_trace:
  "c_chmod p m w = (r, w') \<Longrightarrow> trace w' = trace w @ [EvChmod p m r]"
  using c_chmod_effect by blast

lemma c_utimes_trace:
  "c_utimes p a mt w = (r, w') \<Longrightarrow> trace w' = trace w @ [EvUtimes p mt r]"
  using c_utimes_effect by blast

lemma c_fclose_trace: "trace (c_fclose out w) = trace w @ [EvFclose out]"
  by (simp add: c_fclose_def log_event_def)

lemma writeFile_trace:
  assumes "writeFile ctx zFile pData mode mtime w = (res, c', w')"
  shows "\<exists>rest. trace w' = trace w @ EvFopen zFile ''wb'' (fst (c_fopen zFile ''wb'' w) \<noteq> None) # rest
                \<and> quiet rest"
proof (cases "c_fopen zFile ''wb'' w")
  case (Pair x w1)
  note t1 = c_fopen_trace [OF Pair]
  show ?thesis
  proof (cases x)
    case None
    with assms Pair have "w' = w1"
      by (simp add: writeFile_def)
    with t1 None Pair show ?thesis
      by (simp add: quiet_def)
  next
    case (Some out)
    have "\<exists>rest. trace w' = trace w1 @ rest \<and> quiet rest"
      using assms unfolding writeFile_def Pair Some prod.case option.case Let_def
      by (auto simp: c_fclose_trace quiet_def split: option.splits prod.splits if_splits
               dest!: c_fwrite_trace c_chmod_trace c_utimes_trace)
    with t1 Some Pair show ?thesis
      by auto
  qed
qed

lemma probe_log_quiet: "probe_log evs \<Longrightarrow> quiet evs"
  by (induction evs rule: probe_log.induct) (auto simp: quiet_def)

lemma makeParentDirectory_trace:
  assumes "makeParentDirectory zFile w = (rc, w')"
  shows "\<exists>ok rest. trace w' = trace w @ EvMprintf zFile ok # rest \<and> quiet rest"
proof (cases "malloc_fails w (length zFile + 1)")
  case True
  with assms have "w' = log_event (EvMprintf zFile False) w"
    by (simp add: makeParentDirectory_def sqlite3_mprintf_def)
  then show ?thesis
    by (intro exI [of _ False] exI [of _ "[]"]) (simp add: log_event_def quiet_def)
next
  case False
  define w1 where "w1 = log_event (EvMprintf zFile True) w"
  obtain rc2 w2 where loop: "mpd_loop zFile 1 SQLITE_OK w1 = (rc2, w2)"
    by (cases "mpd_loop zFile 1 SQLITE_OK w1")
  from assms False loop have res: "w' = sqlite3_free w2"
    by (simp add: makeParentDirectory_def sqlite3_mprintf_def w1_def)
  have "\<exists>evs. trace w2 = trace w1 @ evs \<and> probe_log evs"
  proof (cases "zFile = []")
    case True
    from mpd_loop_empty [OF loop [unfolded True]] show ?thesis
      by simp
  next
    case False
    then have "1 \<le> length zFile"
      by (cases zFile) simp_all
    from mpd_loop_post [OF refl this loop] show ?thesis
      unfolding mpd_post_def by blast
  qed
  then obtain evs where "trace w2 = trace w1 @ evs" "quiet evs"
    using probe_log_quiet by blast
  then show ?thesis
    unfolding res w1_def
    by (intro exI [of _ True] exI [of _ "evs @ [EvFree]"])
       (simp add: sqlite3_free_def log_event_def quiet_def)
qed


lemma quiet_filter [simp]:
  "quiet evs \<Longrightarrow> filter is_fopen evs = []" "quiet evs \<Longrightarrow> filter is_mprintf evs = []"
  by (auto simp: quiet_def filter_empty_conv)

text \<open>
  C3. Let \<open>enoent\<close> say that the first \<open>fopen(zFile, "wb")\<close> of the call returns NULL with \<open>errno\<close>
  \<open>ENOENT\<close>, and \<open>built\<close> that \<open>makeParentDirectory\<close>, run after that failure, returns \<open>SQLITE_OK\<close>.
  In the log of \<open>writefile\<close>'s write-and-retry block, the directory builder starts (its one
  \<open>sqlite3_mprintf\<close>) once when \<open>enoent\<close> holds and not at all otherwise; the file is opened for
  writing twice when \<open>enoent\<close> and \<open>built\<close> hold and once otherwise, always at \<open>zFile\<close>. Without
  \<open>enoent\<close> the block is the single run of \<open>writeFile\<close>; with \<open>enoent\<close> and a failed builder the
  result is 1 and nothing is retried; with both, the block ends with the second run of
  \<open>writeFile\<close> in the world the builder left. In particular a failure of the write, of \<open>chmod\<close>
  or of \<open>utimes\<close> never starts the builder.
\<close>

theorem writefile_retry_once:
  fixes zFile :: string and w :: world
  defines "enoent \<equiv> fst (c_fopen zFile ''wb'' w) = None
                     \<and> errno (snd (c_fopen zFile ''wb'' w)) = ENOENT"
  defines "built \<equiv> fst (makeParentDirectory zFile (snd (c_fopen zFile ''wb'' w))) = SQLITE_OK"
  assumes run: "writefile_res ctx zFile pData perm mtime w = (res, ctx', w')"
  shows "(\<exists>evs. trace w' = trace w @ evs
            \<and> length (filter is_mprintf evs) = (if enoent then 1 else 0)
            \<and> length (filter is_fopen evs) = (if enoent \<and> built then 2 else 1)
            \<and> (\<forall>e\<in>set evs. is_fopen e \<longrightarrow> (\<exists>ok. e = EvFopen zFile ''wb'' ok)))
         \<and> (\<not> enoent \<longrightarrow> (res, ctx', w') = writeFile ctx zFile pData perm mtime w)
         \<and> (enoent \<and> \<not> built \<longrightarrow>
              res = 1 \<and> ctx' = ctx
              \<and> w' = snd (makeParentDirectory zFile (snd (c_fopen zFile ''wb'' w))))
         \<and> (enoent \<and> built \<longrightarrow>
              (res, ctx', w') = writeFile ctx zFile pData perm mtime
                                 (snd (makeParentDirectory zFile (snd (c_fopen zFile ''wb'' w)))))"
proof -
  obtain x w1 where op: "c_fopen zFile ''wb'' w = (x, w1)"
    by (cases "c_fopen zFile ''wb'' w")
  obtain res1 c1 wA where first: "writeFile ctx zFile pData perm mtime w = (res1, c1, wA)"
    by (cases "writeFile ctx zFile pData perm mtime w")
  from writeFile_trace [OF first] op obtain r1 where
    t1: "trace wA = trace w @ EvFopen zFile ''wb'' (x \<noteq> None) # r1" and q1: "quiet r1"
    by auto
  have once: ?thesis if same: "(res, ctx', w') = (res1, c1, wA)" and no: "\<not> enoent"
  proof -
    have "trace w' = trace w @ (EvFopen zFile ''wb'' (x \<noteq> None) # r1)"
      using t1 same by simp
    moreover have "length (filter is_mprintf (EvFopen zFile ''wb'' (x \<noteq> None) # r1)) = 0"
      "length (filter is_fopen (EvFopen zFile ''wb'' (x \<noteq> None) # r1)) = 1"
      "\<forall>e\<in>set (EvFopen zFile ''wb'' (x \<noteq> None) # r1). is_fopen e
          \<longrightarrow> (\<exists>ok. e = EvFopen zFile ''wb'' ok)"
      using q1 by (auto simp: quiet_def)
    ultimately show ?thesis
      using no same first by (intro conjI exI [of _ "EvFopen zFile ''wb'' (x \<noteq> None) # r1"]) auto
  qed
  show ?thesis
  proof (cases x)
    case (Some out)
    then have no: "\<not> enoent"
      by (simp add: enoent_def op)
    from writeFile_opened [OF op [unfolded Some] first] have "res1 = 1 \<longrightarrow> errno wA \<noteq> ENOENT"
      by blast
    with run first have "(res, ctx', w') = (res1, c1, wA)"
      by (auto simp: writefile_res_def)
    with no show ?thesis
      by (rule once [rotated])
  next
    case None
    from writeFile_open_fails [OF op [unfolded None]] first
    have f1: "res1 = 1" "c1 = ctx" "wA = w1"
      by simp_all
    show ?thesis
    proof (cases "errno w1 = ENOENT")
      case False
      then have no: "\<not> enoent"
        by (simp add: enoent_def op)
      from run first f1 False have "(res, ctx', w') = (res1, c1, wA)"
        by (auto simp: writefile_res_def)
      with no show ?thesis
        by (rule once [rotated])
    next
      case True
      then have yes: enoent
        by (simp add: enoent_def op None)
      obtain rc w2 where mpd: "makeParentDirectory zFile w1 = (rc, w2)"
        by (cases "makeParentDirectory zFile w1")
      from makeParentDirectory_trace [OF mpd] obtain ok r2 where
        t2: "trace w2 = trace w1 @ EvMprintf zFile ok # r2" and q2: "quiet r2"
        by blast
      have b: "built \<longleftrightarrow> rc = SQLITE_OK"
        by (simp add: built_def op mpd)
      have m: "snd (makeParentDirectory zFile (snd (c_fopen zFile ''wb'' w))) = w2"
        by (simp add: op mpd)
      show ?thesis
      proof (cases "rc = SQLITE_OK")
        case False
        with run first f1 True mpd have e: "res = 1" "ctx' = ctx" "w' = w2"
          by (auto simp: writefile_res_def)
        let ?evs = "EvFopen zFile ''wb'' False # r1 @ EvMprintf zFile ok # r2"
        have "trace w' = trace w @ ?evs"
          using t1 t2 f1 e None by simp
        moreover have "length (filter is_mprintf ?evs) = 1" "length (filter is_fopen ?evs) = 1"
          "\<forall>e\<in>set ?evs. is_fopen e \<longrightarrow> (\<exists>ok. e = EvFopen zFile ''wb'' ok)"
          using q1 q2 by (auto simp: quiet_def)
        ultimately show ?thesis
          using yes b False e m by (intro conjI exI [of _ ?evs]) auto
      next
        case ok2: True
        with run first f1 True mpd
        have second: "writeFile ctx zFile pData perm mtime w2 = (res, ctx', w')"
          by (auto simp: writefile_res_def)
        from writeFile_trace [OF second] obtain ok3 r3 where
          t3: "trace w' = trace w2 @ EvFopen zFile ''wb'' ok3 # r3" and q3: "quiet r3"
          by blast
        let ?evs = "EvFopen zFile ''wb'' False # r1 @ EvMprintf zFile ok # r2
                    @ EvFopen zFile ''wb'' ok3 # r3"
        have "trace w' = trace w @ ?evs"
          using t1 t2 t3 f1 None by simp
        moreover have "length (filter is_mprintf ?evs) = 1" "length (filter is_fopen ?evs) = 2"
          "\<forall>e\<in>set ?evs. is_fopen e \<longrightarrow> (\<exists>ok. e = EvFopen zFile ''wb'' ok)"
          using q1 q2 q3 by (auto simp: quiet_def)
        ultimately show ?thesis
          using yes b ok2 second m by (intro conjI exI [of _ ?evs]) auto
      qed
    qed
  qed
qed


theorem writefile_retry_once_witness:
  "writefile_res ctx0 ''/tmp/a/b/c.txt'' (SQL_BLOB [1, 2, 3, 4]) 0x1B6 (- 1) world0
     = (0, fst (snd (writefile_res ctx0 ''/tmp/a/b/c.txt'' (SQL_BLOB [1, 2, 3, 4]) 0x1B6 (- 1) world0)),
        snd (snd (writefile_res ctx0 ''/tmp/a/b/c.txt'' (SQL_BLOB [1, 2, 3, 4]) 0x1B6 (- 1) world0)))
   \<and> length (filter is_mprintf (trace (snd (snd
        (writefile_res ctx0 ''/tmp/a/b/c.txt'' (SQL_BLOB [1, 2, 3, 4]) 0x1B6 (- 1) world0))))) = 1
   \<and> length (filter is_fopen (trace (snd (snd
        (writefile_res ctx0 ''/tmp/a/b/c.txt'' (SQL_BLOB [1, 2, 3, 4]) 0x1B6 (- 1) world0))))) = 2"
proof -
  let ?P = "''/tmp/a/b/c.txt''"
  let ?X = "writefile_res ctx0 ?P (SQL_BLOB [1, 2, 3, 4]) 0x1B6 (- 1) world0"
  have r: "fst ?X = 0"
    by code_simp
  have eq: "?X = (0, fst (snd ?X), snd (snd ?X))"
    using r by (metis prod.collapse)
  have e1: "fst (c_fopen ?P ''wb'' world0) = None"
    by code_simp
  have e2: "errno (snd (c_fopen ?P ''wb'' world0)) = ENOENT"
    by code_simp
  have b: "fst (makeParentDirectory ?P (snd (c_fopen ?P ''wb'' world0))) = SQLITE_OK"
    by code_simp
  have t0: "trace world0 = []"
    by (simp add: world0_def)
  from writefile_retry_once [OF eq] e1 e2 b t0
  have "length (filter is_mprintf (trace (snd (snd ?X)))) = 1
        \<and> length (filter is_fopen (trace (snd (snd ?X)))) = 2"
    by auto
  with eq show ?thesis
    by blast
qed


section \<open>Creating a directory that may exist\<close>

lemma walk_nofollow_follow:
  "walk fuel f False cur cs = Inr r \<Longrightarrow> \<forall>t. f r \<noteq> Some (Lnk t)
   \<Longrightarrow> walk fuel f True cur cs = Inr r"
proof (induction fuel f False cur cs rule: walk.induct)
  case (1 fuel f cur)
  then show ?case by simp
next
  case (2 fuel f cur c cs)
  from "2.prems"(1) obtain p where dir: "f cur = Some (Dir p)"
    by (auto split: option.splits inode.splits)
  show ?case
  proof (cases "c = [] \<or> c = ''.''")
    case True
    with "2.prems" dir "2.hyps"(1) [OF dir refl True] show ?thesis
      by auto
  next
    case nodot: False
    show ?thesis
    proof (cases "c = ''..''")
      case True
      with "2.prems" dir nodot "2.hyps"(2) [OF dir refl nodot True] show ?thesis
        by auto
    next
      case noup: False
      show ?thesis
      proof (cases "f (cur @ [c])")
        case None
        with "2.prems" dir nodot noup "2.hyps"(3) [OF dir refl nodot noup None] show ?thesis
          by auto
      next
        case (Some n)
        show ?thesis
        proof (cases n)
          case (Reg x1 x2 x3)
          with "2.prems" dir nodot noup Some "2.hyps"(4) [OF dir refl nodot noup Some Reg]
          show ?thesis by auto
        next
          case (Dir x)
          with "2.prems" dir nodot noup Some "2.hyps"(5) [OF dir refl nodot noup Some Dir]
          show ?thesis by auto
        next
          case (Lnk t)
          show ?thesis
          proof (cases "cs = []")
            case True
            with "2.prems" dir nodot noup Some Lnk show ?thesis
              by auto
          next
            case False
            then have fol: "\<not> (cs = [] \<and> \<not> False)" by simp
            show ?thesis
            proof (cases fuel)
              case 0
              with "2.prems" dir nodot noup Some Lnk False show ?thesis
                by auto
            next
              case (Suc k)
              show ?thesis
              proof (cases "t = []")
                case True
                with "2.prems" dir nodot noup Some Lnk False Suc show ?thesis
                  by auto
              next
                case nonempty: False
                from "2.prems"(1) dir nodot noup Some Lnk False Suc nonempty
                have "walk k f False (if hd t = CHR ''/'' then [] else cur) (split_path t @ cs) = Inr r"
                  by auto
                from "2.hyps"(6) [OF dir refl nodot noup Some Lnk fol Suc nonempty this "2.prems"(2)]
                show ?thesis
                  using dir nodot noup Some Lnk False Suc nonempty by auto
              qed
            qed
          qed
        qed
      qed
    qed
  qed
qed

lemma walk_empties:
  "walk fuel f follow cur (replicate k []) =
     (if k = 0 then Inr cur
      else case f cur of None \<Rightarrow> Inl ENOENT | Some (Dir p) \<Rightarrow> Inr cur | Some n \<Rightarrow> Inl ENOTDIR)"
  by (induction k) (auto split: option.splits inode.splits)

lemma walk_append_empties:
  "walk fuel f True cur cs = Inr r \<Longrightarrow>
   walk fuel f True cur (cs @ replicate k []) =
     (if k = 0 then Inr r
      else case f r of None \<Rightarrow> Inl ENOENT | Some (Dir p) \<Rightarrow> Inr r | Some n \<Rightarrow> Inl ENOTDIR)"
proof (induction fuel f True cur cs rule: walk.induct)
  case (1 fuel f cur)
  then show ?case by (simp add: walk_empties)
next
  case (2 fuel f cur c cs)
  from "2.prems"(1) obtain p where dir: "f cur = Some (Dir p)"
    by (auto split: option.splits inode.splits)
  show ?case
  proof (cases "c = [] \<or> c = ''.''")
    case True
    with "2.prems" dir "2.hyps"(1) [OF dir refl True] show ?thesis
      by auto
  next
    case nodot: False
    show ?thesis
    proof (cases "c = ''..''")
      case True
      with "2.prems" dir nodot "2.hyps"(2) [OF dir refl nodot True] show ?thesis
        by auto
    next
      case noup: False
      show ?thesis
      proof (cases "f (cur @ [c])")
        case None
        with "2.prems" dir nodot noup "2.hyps"(3) [OF dir refl nodot noup None] show ?thesis
          by auto
      next
        case (Some n)
        show ?thesis
        proof (cases n)
          case (Reg x1 x2 x3)
          with "2.prems" dir nodot noup Some "2.hyps"(4) [OF dir refl nodot noup Some Reg]
          show ?thesis by auto
        next
          case (Dir x)
          with "2.prems" dir nodot noup Some "2.hyps"(5) [OF dir refl nodot noup Some Dir]
          show ?thesis by auto
        next
          case (Lnk t)
          have fol: "\<not> (cs = [] \<and> \<not> True)" by simp
          show ?thesis
          proof (cases fuel)
            case 0
            with "2.prems" dir nodot noup Some Lnk show ?thesis
              by auto
          next
            case (Suc j)
            show ?thesis
            proof (cases "t = []")
              case True
              with "2.prems" dir nodot noup Some Lnk Suc show ?thesis
                by auto
            next
              case nonempty: False
              from "2.prems"(1) dir nodot noup Some Lnk Suc nonempty
              have "walk j f True (if hd t = CHR ''/'' then [] else cur) (split_path t @ cs) = Inr r"
                by auto
              from "2.hyps"(6) [OF dir refl nodot noup Some Lnk fol Suc nonempty this]
              show ?thesis
                using dir nodot noup Some Lnk Suc nonempty by auto
            qed
          qed
        qed
      qed
    qed
  qed
qed

lemma split_path_not_Nil [simp]: "split_path s \<noteq> []"
  by (induction s) (auto split: list.splits)

lemma split_path_append_slashes:
  "split_path (s @ replicate k (CHR ''/'')) = split_path s @ replicate k []"
proof (induction s)
  case Nil
  show ?case
    by (induction k) auto
next
  case (Cons c s)
  then show ?case
    by (cases "split_path s") (auto split: list.splits)
qed

lemma strip_slashes_decompose:
  assumes "path \<noteq> []"
  shows "\<exists>k. path = strip_slashes path @ replicate k (CHR ''/'') \<and> strip_slashes path \<noteq> []
             \<and> hd (strip_slashes path) = hd path"
proof -
  let ?P = "\<lambda>c. c = CHR ''/''"
  let ?q = "rev (dropWhile ?P (rev path))"
  let ?k = "length (takeWhile ?P (rev path))"
  have tw: "takeWhile ?P (rev path) = replicate ?k (CHR ''/'')"
    by (rule replicate_length_same [symmetric]) (auto dest: set_takeWhileD)
  have "rev path = takeWhile ?P (rev path) @ dropWhile ?P (rev path)"
    by simp
  then have "path = rev (takeWhile ?P (rev path) @ dropWhile ?P (rev path))"
    by (metis rev_rev_ident)
  moreover have "rev (takeWhile ?P (rev path)) = replicate ?k (CHR ''/'')"
    using tw by (metis rev_replicate)
  ultimately have dec: "path = ?q @ replicate ?k (CHR ''/'')"
    by (simp only: rev_append)
  show ?thesis
  proof (cases "?q = []")
    case True
    with dec have all: "path = replicate ?k (CHR ''/'')"
      by simp
    with assms have "?k \<noteq> 0"
      by auto
    then obtain j where j: "?k = Suc j"
      by (cases ?k) auto
    have "strip_slashes path = (if path \<noteq> [] \<and> ?q = [] then ''/'' else ?q)"
      unfolding strip_slashes_def Let_def ..
    with True assms have sp: "strip_slashes path = ''/''"
      by (simp only: simp_thms if_True)
    have "path = ''/'' @ replicate j (CHR ''/'')"
      using all j by (metis append_Cons append_Nil replicate_Suc)
    moreover have "hd path = CHR ''/''"
      using all j by (metis hd_replicate nat.distinct(1))
    ultimately show ?thesis
      using sp by (intro exI [of _ j]) simp
  next
    case False
    have "strip_slashes path = (if path \<noteq> [] \<and> ?q = [] then ''/'' else ?q)"
      unfolding strip_slashes_def Let_def ..
    with False have sp: "strip_slashes path = ?q"
      by (simp only: simp_thms if_False)
    have "hd path = hd ?q"
      using dec False by (metis hd_append2)
    with dec sp False show ?thesis
      by (intro exI [of _ ?k]) simp
  qed
qed


lemma S_ISDIR_st_mode_of: "S_ISDIR (st_mode_of n) \<longleftrightarrow> (\<exists>p. n = Dir p)"
  by (cases n)
     (simp_all add: S_ISDIR_def st_mode_of_def S_IFMT_def S_IFDIR_def S_IFREG_def S_IFLNK_def
        word_ao_dist and.assoc)

lemma st_mode_of_Dir_perm: "st_mode_of (Dir p) AND 0x1FF = p AND 0x1FF"
  by (simp add: st_mode_of_def S_IFDIR_def word_ao_dist and.assoc)

lemma perm_mask_idem: "((m AND 0x1FF) AND 0xFFF) AND 0x1FF = m AND (0x1FF :: 32 word)"
  by (simp add: and.assoc)

lemma lookup_cong: "fs w' = fs w \<Longrightarrow> cwd w' = cwd w \<Longrightarrow> lookup p w' = lookup p w"
  by (simp add: lookup_def resolve_def cong: sum.case_cong)

lemma resolve_cong: "fs w' = fs w \<Longrightarrow> cwd w' = cwd w \<Longrightarrow> resolve b p w' = resolve b p w"
  by (simp add: resolve_def)

lemma walk_errors:
  "walk fuel f follow cur cs = Inl e \<Longrightarrow> e = ENOENT \<or> e = ENOTDIR \<or> e = ELOOP"
  by (induction fuel f follow cur cs rule: walk.induct)
     (auto split: option.splits inode.splits if_splits nat.splits)

lemma resolve_errors:
  "resolve follow path w = Inl e \<Longrightarrow> e = ENOENT \<or> e = ENOTDIR \<or> e = ELOOP"
  using walk_errors by (auto simp: resolve_def split: if_splits)

lemma c_mkdir_cases:
  assumes "c_mkdir path mode w = (r, w1)"
  shows "same_env w w1
     \<and> (r = 0 \<longrightarrow> fault w SYS_mkdir path = None \<and> errno w1 = errno w
           \<and> (\<exists>c. resolve False (strip_slashes path) w = Inr c \<and> fs w c = None
                 \<and> fs w1 = (fs w)(c \<mapsto> Dir (mode AND NOT (umask w) AND 0x1FF))))
     \<and> (r \<noteq> 0 \<longrightarrow> fs w1 = fs w
           \<and> (errno w1 = EEXIST \<longleftrightarrow>
                fault w SYS_mkdir path = None
                \<and> (\<exists>c n. resolve False (strip_slashes path) w = Inr c \<and> fs w c = Some n)))"
proof -
  have failing: ?thesis
    if eq: "c_mkdir path mode w = (- 1, log_event (EvMkdir path mode (- 1)) (set_errno e w))"
      and e: "e = EEXIST \<longleftrightarrow> fault w SYS_mkdir path = None
                \<and> (\<exists>c n. resolve False (strip_slashes path) w = Inr c \<and> fs w c = Some n)"
    for e
  proof -
    from eq assms have "r = - 1" "w1 = log_event (EvMkdir path mode (- 1)) (set_errno e w)"
      by simp_all
    with e show ?thesis
      by (simp add: log_event_def set_errno_def same_env_def)
  qed
  show ?thesis
  proof (cases "fault w SYS_mkdir path")
    case (Some x)
    have "c_mkdir path mode w
        = (- 1, log_event (EvMkdir path mode (- 1)) (set_errno (errno_of_fault x) w))"
      by (simp add: c_mkdir_def Some)
    moreover have "errno_of_fault x \<noteq> EEXIST"
      by (cases x) simp_all
    ultimately show ?thesis
      using Some by (intro failing) simp_all
  next
    case None
    show ?thesis
    proof (cases "resolve False (strip_slashes path) w")
      case (Inl e)
      have "c_mkdir path mode w = (- 1, log_event (EvMkdir path mode (- 1)) (set_errno e w))"
        by (simp add: c_mkdir_def None Inl)
      moreover have "e \<noteq> EEXIST"
        using resolve_errors [OF Inl] by auto
      ultimately show ?thesis
        using Inl by (intro failing) simp_all
    next
      case (Inr c)
      show ?thesis
      proof (cases "fs w c")
        case (Some n)
        have "c_mkdir path mode w
            = (- 1, log_event (EvMkdir path mode (- 1)) (set_errno EEXIST w))"
          by (simp add: c_mkdir_def None Inr Some)
        then show ?thesis
          using None Inr Some by (intro failing) simp_all
      next
        case absent: None
        show ?thesis
        proof (cases "has_parent_dir w c")
          case True
          have "c_mkdir path mode w = (0, log_event (EvMkdir path mode 0)
                  (w\<lparr>fs := (fs w)(c \<mapsto> Dir (mode AND NOT (umask w) AND 0x1FF))\<rparr>))"
            by (simp add: c_mkdir_def None Inr absent True)
          with assms have "r = 0" "w1 = log_event (EvMkdir path mode 0)
                  (w\<lparr>fs := (fs w)(c \<mapsto> Dir (mode AND NOT (umask w) AND 0x1FF))\<rparr>)"
            by simp_all
          with None Inr absent show ?thesis
            by (simp add: log_event_def same_env_def)
        next
          case False
          have "c_mkdir path mode w
              = (- 1, log_event (EvMkdir path mode (- 1)) (set_errno ENOENT w))"
            by (simp add: c_mkdir_def None Inr absent False)
          moreover have "(ENOENT = EEXIST) \<longleftrightarrow> fault w SYS_mkdir path = None
                \<and> (\<exists>c n. resolve False (strip_slashes path) w = Inr c \<and> fs w c = Some n)"
            using Inr absent by simp
          ultimately show ?thesis
            by (rule failing)
        qed
      qed
    qed
  qed
qed

lemma c_stat_cases:
  assumes "c_stat path w = (x, w1)"
  shows "same_env w w1 \<and> fs w1 = fs w
     \<and> (x = None \<longleftrightarrow> fault w SYS_stat path \<noteq> None \<or> (\<exists>e. lookup path w = Inl e))
     \<and> (\<forall>m. x = Some m \<longrightarrow> (\<exists>c n. lookup path w = Inr (c, n) \<and> m = st_mode_of n))"
  using assms
  by (auto simp: c_stat_def log_event_def set_errno_def same_env_def
           split: option.splits sum.splits prod.splits)


lemma same_env_fields:
  assumes "same_env w w'"
  shows "cwd w' = cwd w" "fault w' = fault w" "umask w' = umask w"
  using assms by (simp_all add: same_env_def)

lemma makeDirectory_exists:
  assumes f: "fault w SYS_mkdir path = None"
    and r: "resolve False (strip_slashes path) w = Inr c"
    and e: "fs w c = Some n0"
    and md: "makeDirectory ctx path mode w = (res, w')"
  shows "(res = 0 \<or> res = 1) \<and> same_env w w'
     \<and> (res = 0 \<longleftrightarrow>
          fault w SYS_stat path = None
          \<and> (\<exists>c' p. lookup path w = Inr (c', Dir p)
                \<and> (p AND 0x1FF = mode AND 0x1FF \<or> fault w SYS_chmod path = None)))
     \<and> (res = 0 \<longrightarrow>
          (\<exists>c' p. lookup path w = Inr (c', Dir p)
             \<and> (fs w' = fs w \<and> p AND 0x1FF = mode AND 0x1FF
                 \<or> fs w' = (fs w)(c' \<mapsto> Dir ((mode AND 0x1FF) AND 0xFFF)))))"
proof -
  obtain r1 w1 where mk: "c_mkdir path mode w = (r1, w1)"
    by (cases "c_mkdir path mode w")
  from c_mkdir_cases [OF mk] f r e
  have r1: "r1 \<noteq> 0" and ex: "errno w1 = EEXIST" and fs1: "fs w1 = fs w" and env1: "same_env w w1"
    by auto
  obtain x w2 where st: "c_stat path w1 = (x, w2)"
    by (cases "c_stat path w1")
  note s = c_stat_cases [OF st]
  from s have env2: "same_env w1 w2" and fs2: "fs w2 = fs w1"
    by simp_all
  have lk1: "lookup path w1 = lookup path w"
    using fs1 same_env_fields(1) [OF env1] by (rule lookup_cong)
  have lk2: "lookup path w2 = lookup path w"
    using fs2 fs1 same_env_fields(1) [OF env1] same_env_fields(1) [OF env2]
    by (intro lookup_cong) simp_all
  have fl1: "fault w1 = fault w" and fl2: "fault w2 = fault w"
    using same_env_fields(2) [OF env1] same_env_fields(2) [OF env2] by simp_all
  have env02: "same_env w w2"
    using env1 env2 by (rule same_env_trans)
  show ?thesis
  proof (cases x)
    case None
    have "makeDirectory ctx path mode w = (1, w2)"
      by (simp add: makeDirectory_def mk r1 ex fileStat_def st None)
    with md have "res = 1" "w' = w2"
      by simp_all
    with s None env02 lk1 fl1 show ?thesis
      by auto
  next
    case (Some m)
    with s lk1 obtain c' n where lk: "lookup path w = Inr (c', n)" and m: "m = st_mode_of n"
      by auto
    from s Some lk1 fl1 have nf: "fault w SYS_stat path = None"
      by auto
    show ?thesis
    proof (cases "S_ISDIR m")
      case False
      have "makeDirectory ctx path mode w = (1, w2)"
        by (simp add: makeDirectory_def mk r1 ex fileStat_def st Some False)
      with md have "res = 1" "w' = w2"
        by simp_all
      with False m lk env02 show ?thesis
        by (auto simp: S_ISDIR_st_mode_of)
    next
      case True
      with m obtain p where n: "n = Dir p"
        by (auto simp: S_ISDIR_st_mode_of)
      have mp: "m AND 0x1FF = p AND 0x1FF"
        by (simp add: m n st_mode_of_Dir_perm)
      show ?thesis
      proof (cases "p AND 0x1FF = mode AND 0x1FF")
        case eq: True
        have "makeDirectory ctx path mode w = (0, w2)"
          by (simp add: makeDirectory_def mk r1 ex fileStat_def st Some True mp eq)
        with md have "res = 0" "w' = w2"
          by simp_all
        with eq lk n nf env02 fs1 fs2 show ?thesis
          by auto
      next
        case neq: False
        obtain r3 w3 where ch: "c_chmod path (mode AND 0x1FF) w2 = (r3, w3)"
          by (cases "c_chmod path (mode AND 0x1FF) w2")
        note c = c_chmod_effect [OF ch]
        have "makeDirectory ctx path mode w = (if r3 \<noteq> 0 then 1 else 0, w3)"
          by (simp add: makeDirectory_def mk r1 ex fileStat_def st Some True mp neq ch)
        with md have res: "res = (if r3 \<noteq> 0 then 1 else 0)" "w' = w3"
          by simp_all
        from c have env3: "same_env w w3"
          using env02 same_env_trans by blast
        show ?thesis
        proof (cases "r3 = 0")
          case True
          with c lk lk2 n fs1 fs2
          have "fault w SYS_chmod path = None"
            "fs w3 = (fs w)(c' \<mapsto> Dir ((mode AND 0x1FF) AND 0xFFF))"
            by (auto simp: fl2)
          with True res lk n nf env3 show ?thesis
            by auto
        next
          case False
          with c lk lk2 have "fault w SYS_chmod path \<noteq> None"
            by (auto simp: fl2)
          with False res lk n neq env3 show ?thesis
            by auto
        qed
      qed
    qed
  qed
qed


lemma strip_slashes_Nil [simp]: "strip_slashes [] = []"
  by (simp add: strip_slashes_def)

lemma resolve_follow_of_nofollow:
  assumes r: "resolve False (strip_slashes path) w = Inr c"
    and nl: "\<forall>t. fs w c \<noteq> Some (Lnk t)"
  shows "((\<exists>p. fs w c = Some (Dir p)) \<longrightarrow> resolve True path w = Inr c)
         \<and> (resolve True path w = Inr c \<or> (\<exists>e. resolve True path w = Inl e))"
proof -
  let ?sp = "strip_slashes path"
  from r have sp: "?sp \<noteq> []"
    by (auto simp: resolve_def split: if_splits)
  then have pne: "path \<noteq> []"
    by auto
  from strip_slashes_decompose [OF pne] obtain k where
    dec: "path = ?sp @ replicate k (CHR ''/'')" and hd: "hd ?sp = hd path"
    by blast
  let ?start = "if hd path = CHR ''/'' then [] else cwd w"
  from r sp hd have "walk 40 (fs w) False ?start (split_path ?sp) = Inr c"
    by (simp add: resolve_def)
  from walk_nofollow_follow [OF this nl]
  have "walk 40 (fs w) True ?start (split_path ?sp) = Inr c" .
  note ae = walk_append_empties [OF this, of k]
  have sp_eq: "split_path path = split_path ?sp @ replicate k []"
    using dec split_path_append_slashes [of ?sp k] by simp
  have res: "resolve True path w = walk 40 (fs w) True ?start (split_path ?sp @ replicate k [])"
    using pne sp_eq by (simp add: resolve_def)
  show ?thesis
    unfolding res ae
    by (auto split: option.splits inode.splits)
qed

lemma makeDirectory_regular:
  assumes r: "resolve False (strip_slashes path) w = Inr c"
    and e: "fs w c = Some (Reg p d t)"
  shows "fst (makeDirectory ctx path mode w) = 1"
proof -
  obtain res w' where md: "makeDirectory ctx path mode w = (res, w')"
    by (cases "makeDirectory ctx path mode w")
  obtain r1 w1 where mk: "c_mkdir path mode w = (r1, w1)"
    by (cases "c_mkdir path mode w")
  from c_mkdir_cases [OF mk] r e have r1: "r1 \<noteq> 0"
    by auto
  show ?thesis
  proof (cases "errno w1 = EEXIST")
    case False
    have "makeDirectory ctx path mode w = (1, w1)"
      by (simp add: makeDirectory_def mk r1 False)
    then show ?thesis
      by simp
  next
    case True
    with c_mkdir_cases [OF mk] r1 have f: "fault w SYS_mkdir path = None"
      by auto
    from resolve_follow_of_nofollow [OF r] e
    have "resolve True path w = Inr c \<or> (\<exists>e. resolve True path w = Inl e)"
      by auto
    with e have "\<not> (\<exists>c' q. lookup path w = Inr (c', Dir q))"
      by (auto simp: lookup_def)
    with makeDirectory_exists [OF f r e md] md show ?thesis
      by auto
  qed
qed

lemma makeDirectory_twice:
  assumes first: "makeDirectory ctx path mode w = (0, w1)"
    and ns: "fault w SYS_stat path = None" and nc: "fault w SYS_chmod path = None"
  shows "fst (makeDirectory ctx path mode w1) = 0"
proof -
  obtain res2 w2 where second: "makeDirectory ctx path mode w1 = (res2, w2)"
    by (cases "makeDirectory ctx path mode w1")
  obtain r1 wa where mk: "c_mkdir path mode w = (r1, wa)"
    by (cases "c_mkdir path mode w")
  note m = c_mkdir_cases [OF mk]
  have "\<exists>c c' q. same_env w w1 \<and> fault w SYS_mkdir path = None
          \<and> resolve False (strip_slashes path) w1 = Inr c \<and> fs w1 c \<noteq> None
          \<and> lookup path w1 = Inr (c', Dir q)"
  proof (cases "r1 = 0")
    case True
    have "makeDirectory ctx path mode w = (0, wa)"
      by (simp add: makeDirectory_def mk True)
    with first have w1: "w1 = wa"
      by simp
    from m True w1 obtain c where f: "fault w SYS_mkdir path = None"
      and r: "resolve False (strip_slashes path) w = Inr c" and e: "fs w c = None"
      and fs1: "fs w1 = (fs w)(c \<mapsto> Dir (mode AND NOT (umask w) AND 0x1FF))"
      and env: "same_env w w1"
      by auto
    have wc: "walk_compatible (fs w) (fs w1)"
      unfolding fs1 using e by (intro walk_compatible_upd) simp
    have r': "resolve False (strip_slashes path) w1 = Inr c"
      using r wc same_env_fields(1) [OF env] by (rule resolve_stable)
    have c1: "fs w1 c = Some (Dir (mode AND NOT (umask w) AND 0x1FF))"
      by (simp add: fs1)
    from resolve_follow_of_nofollow [OF r'] c1
    have "resolve True path w1 = Inr c"
      by auto
    with c1 have "lookup path w1 = Inr (c, Dir (mode AND NOT (umask w) AND 0x1FF))"
      by (simp add: lookup_def)
    with env f r' c1 show ?thesis
      by auto
  next
    case False
    have ex: "errno wa = EEXIST"
    proof (rule ccontr)
      assume "errno wa \<noteq> EEXIST"
      then have "makeDirectory ctx path mode w = (1, wa)"
        by (simp add: makeDirectory_def mk False)
      with first show False
        by simp
    qed
    with m False obtain c n0 where f: "fault w SYS_mkdir path = None"
      and r: "resolve False (strip_slashes path) w = Inr c" and e: "fs w c = Some n0"
      by auto
    from makeDirectory_exists [OF f r e first] obtain c' q where
      env: "same_env w w1" and lk: "lookup path w = Inr (c', Dir q)"
      and fs1: "fs w1 = fs w \<or> fs w1 = (fs w)(c' \<mapsto> Dir ((mode AND 0x1FF) AND 0xFFF))"
      by auto
    from lk have rt: "resolve True path w = Inr c'" and c': "fs w c' = Some (Dir q)"
      by (simp_all add: lookup_Inr)
    have "walk_compatible (fs w) ((fs w)(c' \<mapsto> Dir ((mode AND 0x1FF) AND 0xFFF)))"
      using c' by (intro walk_compatible_upd) simp
    with fs1 have wc: "walk_compatible (fs w) (fs w1)"
      by (auto intro: walk_compatible_refl)
    have r': "resolve False (strip_slashes path) w1 = Inr c"
      using r wc same_env_fields(1) [OF env] by (rule resolve_stable)
    have rt': "resolve True path w1 = Inr c'"
      using rt wc same_env_fields(1) [OF env] by (rule resolve_stable)
    from fs1 e have c1: "fs w1 c \<noteq> None"
      by auto
    from fs1 c' obtain q' where "fs w1 c' = Some (Dir q')"
      by auto
    with rt' have "lookup path w1 = Inr (c', Dir q')"
      by (simp add: lookup_def)
    with env f r' c1 show ?thesis
      by auto
  qed
  then obtain c c' q n1 where env: "same_env w w1" and f: "fault w SYS_mkdir path = None"
    and r': "resolve False (strip_slashes path) w1 = Inr c" and e': "fs w1 c = Some n1"
    and lk': "lookup path w1 = Inr (c', Dir q)"
    by auto
  have f1: "fault w1 SYS_mkdir path = None" "fault w1 SYS_stat path = None"
    "fault w1 SYS_chmod path = None"
    using f ns nc same_env_fields(2) [OF env] by simp_all
  from makeDirectory_exists [OF f1(1) r' e' second] f1 lk' second show ?thesis
    by auto
qed


text \<open>
  C5. Let \<open>mkdir\<close> find an entry at the path (it is not refused, and the path, without trailing
  slashes and without following a last link, names an existing entry), so that it fails with
  \<open>EEXIST\<close>. Then \<open>makeDirectory\<close> returns 0 exactly when \<open>stat\<close> is not refused and finds a
  directory whose permission bits, masked to 0777, equal the requested ones so masked, or
  \<open>chmod\<close> is not refused. After a call that returned 0, a second call with the same path and
  mode returns 0 as well, when \<open>stat\<close> and \<open>chmod\<close> on that path are not refused. On a path that
  names a regular file \<open>makeDirectory\<close> returns 1.
\<close>

theorem makeDirectory_tolerates_existing:
  "(fault w SYS_mkdir path = None \<and> resolve False (strip_slashes path) w = Inr c
      \<and> fs w c = Some n0 \<longrightarrow>
      (fst (makeDirectory ctx path mode w) = 0 \<longleftrightarrow>
         fault w SYS_stat path = None
         \<and> (\<exists>c' p. lookup path w = Inr (c', Dir p)
               \<and> (p AND 0x1FF = mode AND 0x1FF \<or> fault w SYS_chmod path = None))))
   \<and> (makeDirectory ctx path mode w = (0, w1) \<and> fault w SYS_stat path = None
        \<and> fault w SYS_chmod path = None \<longrightarrow>
        fst (makeDirectory ctx path mode w1) = 0)
   \<and> (resolve False (strip_slashes path) w = Inr c \<and> fs w c = Some (Reg p0 d t) \<longrightarrow>
        fst (makeDirectory ctx path mode w) = 1)"
proof -
  have a: "fst (makeDirectory ctx path mode w) = 0 \<longleftrightarrow>
         fault w SYS_stat path = None
         \<and> (\<exists>c' p. lookup path w = Inr (c', Dir p)
               \<and> (p AND 0x1FF = mode AND 0x1FF \<or> fault w SYS_chmod path = None))"
    if "fault w SYS_mkdir path = None" "resolve False (strip_slashes path) w = Inr c"
      "fs w c = Some n0"
    using makeDirectory_exists [OF that, of ctx mode "fst (makeDirectory ctx path mode w)"
        "snd (makeDirectory ctx path mode w)"]
    by simp
  from a makeDirectory_twice makeDirectory_regular show ?thesis
    by blast
qed

theorem makeDirectory_tolerates_existing_witness:
  "makeDirectory ctx0 ''/tmp/d'' 0x1E8 world0
     = (0, snd (makeDirectory ctx0 ''/tmp/d'' 0x1E8 world0))
   \<and> fst (makeDirectory ctx0 ''/tmp/d'' 0x1E8 (snd (makeDirectory ctx0 ''/tmp/d'' 0x1E8 world0))) = 0
   \<and> resolve False (strip_slashes ''/tmp/f.txt'') world0 = Inr [''tmp'', ''f.txt'']
   \<and> fst (makeDirectory ctx0 ''/tmp/f.txt'' 0x1E8 world0) = 1
   \<and> resolve False (strip_slashes ''/tmp/'') world0 = Inr [''tmp'']
   \<and> lookup ''/tmp/'' world0 = Inr ([''tmp''], Dir 0x1FF)
   \<and> fst (makeDirectory ctx0 ''/tmp/'' 0x1C0 world0) = 0"
proof -
  let ?W = "snd (makeDirectory ctx0 ''/tmp/d'' 0x1E8 world0)"
  have nf: "fault world0 SYS_mkdir p = None" "fault world0 SYS_stat p = None"
    "fault world0 SYS_chmod p = None" for p
    by (simp_all add: world0_def)
  have r0: "fst (makeDirectory ctx0 ''/tmp/d'' 0x1E8 world0) = 0"
    by code_simp
  then have first: "makeDirectory ctx0 ''/tmp/d'' 0x1E8 world0 = (0, ?W)"
    by (metis prod.collapse)
  from makeDirectory_tolerates_existing [of world0 "''/tmp/d''" _ _ ctx0 "0x1E8" ?W] first nf
  have twice: "fst (makeDirectory ctx0 ''/tmp/d'' 0x1E8 ?W) = 0"
    by blast
  have rf: "resolve False (strip_slashes ''/tmp/f.txt'') world0 = Inr [''tmp'', ''f.txt'']"
    by code_simp
  have ff: "fs world0 [''tmp'', ''f.txt''] = Some (Reg 0x1A4 [0x61, 0x62, 0x63] 900)"
    by (simp add: world0_def)
  from makeDirectory_tolerates_existing
         [of world0 "''/tmp/f.txt''" "[''tmp'', ''f.txt'']" _ ctx0 "0x1E8" _ "0x1A4"
             "[0x61, 0x62, 0x63]" 900] rf ff
  have reg: "fst (makeDirectory ctx0 ''/tmp/f.txt'' 0x1E8 world0) = 1"
    by blast
  have rt: "resolve False (strip_slashes ''/tmp/'') world0 = Inr [''tmp'']"
    by code_simp
  have ft: "fs world0 [''tmp''] = Some (Dir 0x1FF)"
    by (simp add: world0_def)
  have lt: "lookup ''/tmp/'' world0 = Inr ([''tmp''], Dir 0x1FF)"
    by code_simp
  from makeDirectory_tolerates_existing
         [of world0 "''/tmp/''" "[''tmp'']" "Dir 0x1FF" ctx0 "0x1C0"] rt ft lt nf
  have ex: "fst (makeDirectory ctx0 ''/tmp/'' 0x1C0 world0) = 0"
    by blast
  from first twice rf reg rt lt ex show ?thesis
    by blast
qed


section \<open>Writing a file and reading it back\<close>




lemma blob_bytes_blob [simp]: "blob_bytes (SQL_BLOB B) = B"
  by (simp add: blob_bytes_def)





end
